theory Spec2Isabelle
  imports Complex_Main "HOL-Library.Char_ord" "HOL-Library.List_Lexorder" "HOL-Library.Option_ord"
begin

section \<open>Strings: the Python and SQLite primitives the handlers use\<close>

text \<open>
  A Python \<open>str\<close> is a sequence of code points; a \<^typ>\<open>char\<close> stands for one code point
  below 256, so \<^const>\<open>length\<close> counts what Python's \<open>len\<close> counts. Python's
  \<open>str.isspace\<close>, \<open>str.strip\<close> and \<open>str.lower\<close> are written out for that range;
  SQLite's \<open>lower()\<close> folds the ASCII letters only, and the two are kept apart.
\<close>

definition isspace :: "char \<Rightarrow> bool" where
  "isspace c = ((of_char c :: nat) \<in> {9, 10, 11, 12, 13, 28, 29, 30, 31, 32, 133, 160})"

definition strip :: "string \<Rightarrow> string" where
  "strip s = rev (dropWhile isspace (rev (dropWhile isspace s)))"

definition sql_lower_char :: "char \<Rightarrow> char" where
  "sql_lower_char c =
     (let n = (of_char c :: nat) in if 65 \<le> n \<and> n \<le> 90 then char_of (n + 32) else c)"

definition sql_lower :: "string \<Rightarrow> string" where
  "sql_lower s = map sql_lower_char s"

definition py_lower_char :: "char \<Rightarrow> char" where
  "py_lower_char c =
     (let n = (of_char c :: nat)
      in if (65 \<le> n \<and> n \<le> 90) \<or> (192 \<le> n \<and> n \<le> 222 \<and> n \<noteq> 215)
         then char_of (n + 32) else c)"

definition py_lower :: "string \<Rightarrow> string" where
  "py_lower s = map py_lower_char s"

text \<open>
  SQLite's \<open>X LIKE P\<close>: \<open>%\<close> matches any run of characters, \<open>_\<close> any one character, every
  other character matches itself up to ASCII case.
\<close>

fun like :: "string \<Rightarrow> string \<Rightarrow> bool" where
  "like [] [] = True"
| "like (c # cs) [] = False"
| "like [] (p # ps) = (p = CHR ''%'' \<and> like [] ps)"
| "like (c # cs) (p # ps) =
     (if p = CHR ''%'' then like (c # cs) ps \<or> like cs (p # ps)
      else (p = CHR ''_'' \<or> sql_lower_char p = sql_lower_char c) \<and> like cs ps)"

text \<open>
  SQLite's \<open>instr(X, Y)\<close>: one more than the number of characters before the first
  occurrence of \<open>Y\<close> in \<open>X\<close>, and 0 when there is none.
\<close>

fun instr_from :: "nat \<Rightarrow> string \<Rightarrow> string \<Rightarrow> nat" where
  "instr_from k [] y = (if y = [] then k else 0)"
| "instr_from k (c # cs) y = (if take (length y) (c # cs) = y then k else instr_from (Suc k) cs y)"

definition instr :: "string \<Rightarrow> string \<Rightarrow> nat" where
  "instr x y = instr_from 1 x y"

section \<open>Errors\<close>

text \<open>
  \<open>HTTPException(status_code, detail)\<close> is what the handlers raise. The others are what
  the store raises: \<open>scalar_one_or_none\<close> on more than one row, an INSERT that breaks the
  UNIQUE constraint on \<open>users.username\<close>, a statement SQLite cannot parse, and a Python
  integer outside the 64-bit range of an INTEGER column.
\<close>

datatype error =
    HTTPException nat string
  | MultipleResultsFound
  | IntegrityError
  | OperationalError
  | OverflowError

section \<open>ORDER BY\<close>

text \<open>
  An ordering term is a column expression with the modifiers the query builder has put
  behind it, in the order it renders them: \<open>asc(c)\<close> is \<open>c ASC\<close>, \<open>desc(c)\<close> is
  \<open>c DESC\<close>, \<open>c.nulls_last()\<close> is \<open>c NULLS LAST\<close>, and a builder applied to a term puts
  its keyword behind what is there, so that \<open>desc(c.nulls_last())\<close> is
  \<open>c NULLS LAST DESC\<close>. SQLite's grammar for an ordering term is an expression, then at
  most one of ASC and DESC, then at most one of NULLS FIRST and NULLS LAST; a statement
  with any other term does not parse and raises \<open>OperationalError\<close>.

  \<open>precedes\<close> compares the values of the expression in ascending order; SQLite orders
  NULL below every value, which is the order of \<^typ>\<open>'a option\<close> with \<^const>\<open>None\<close>
  least. SQL leaves the order of rows that tie on every term open; the model keeps them
  in table order (a stable insertion sort).
\<close>

datatype modifier = ASC | DESC | NULLS_FIRST | NULLS_LAST

record 'a order_term =
  precedes :: "'a \<Rightarrow> 'a \<Rightarrow> bool"
  is_null :: "'a \<Rightarrow> bool"
  modifiers :: "modifier list"

definition col :: "('a \<Rightarrow> 'k::linorder) \<Rightarrow> 'a order_term" where
  "col k = \<lparr>precedes = (\<lambda>a b. k a \<le> k b), is_null = (\<lambda>a. False), modifiers = []\<rparr>"

definition nullable :: "('a \<Rightarrow> 'k::linorder option) \<Rightarrow> 'a order_term" where
  "nullable k = \<lparr>precedes = (\<lambda>a b. k a \<le> k b), is_null = (\<lambda>a. k a = None), modifiers = []\<rparr>"

definition asc :: "'a order_term \<Rightarrow> 'a order_term" where
  "asc t = t\<lparr>modifiers := modifiers t @ [ASC]\<rparr>"

definition desc :: "'a order_term \<Rightarrow> 'a order_term" where
  "desc t = t\<lparr>modifiers := modifiers t @ [DESC]\<rparr>"

definition nulls_last :: "'a order_term \<Rightarrow> 'a order_term" where
  "nulls_last t = t\<lparr>modifiers := modifiers t @ [NULLS_LAST]\<rparr>"

fun sqlite_accepts :: "modifier list \<Rightarrow> bool" where
  "sqlite_accepts [] = True"
| "sqlite_accepts [m] = True"
| "sqlite_accepts [m, n] = ((m = ASC \<or> m = DESC) \<and> (n = NULLS_FIRST \<or> n = NULLS_LAST))"
| "sqlite_accepts (m # n # k # ms) = False"

definition term_le :: "'a order_term \<Rightarrow> 'a \<Rightarrow> 'a \<Rightarrow> bool" where
  "term_le t a b =
     (let by_value = (if DESC \<in> set (modifiers t) then precedes t b a else precedes t a b)
      in if NULLS_LAST \<in> set (modifiers t) then
           (if is_null t a then is_null t b else is_null t b \<or> by_value)
         else if NULLS_FIRST \<in> set (modifiers t) then
           (if is_null t b then is_null t a else is_null t a \<or> by_value)
         else by_value)"

fun lex_le :: "('a \<Rightarrow> 'a \<Rightarrow> bool) list \<Rightarrow> 'a \<Rightarrow> 'a \<Rightarrow> bool" where
  "lex_le [] a b = True"
| "lex_le (t # ts) a b = (\<not> t b a \<or> (t a b \<and> lex_le ts a b))"

fun insort_le :: "('a \<Rightarrow> 'a \<Rightarrow> bool) \<Rightarrow> 'a \<Rightarrow> 'a list \<Rightarrow> 'a list" where
  "insort_le le x [] = [x]"
| "insort_le le x (y # ys) = (if le x y then x # y # ys else y # insort_le le x ys)"

definition order_by :: "'a order_term list \<Rightarrow> 'a list \<Rightarrow> error + 'a list" where
  "order_by ts rows =
     (if list_all (\<lambda>t. sqlite_accepts (modifiers t)) ts
      then Inr (foldr (insort_le (lex_le (map term_le ts))) rows [])
      else Inl OperationalError)"

section \<open>Data model\<close>

text \<open>
  The three tables of \<open>models.py\<close>, each a list of rows in rowid order. The column
  \<open>created_at\<close> is filled by the store and read by no handler; it is left out. The schema
  \<open>GearItem\<close> of \<open>schemas.py\<close> has the columns of \<open>GearItemORM\<close> one for one
  (\<open>to_schema\<close> copies each), so one record serves for both.

  Python's \<open>int\<close> is \<^typ>\<open>int\<close>. Its \<open>float\<close> is the type parameter \<open>'f\<close>: nothing is
  assumed of it where the handlers only store and add, and it is linearly ordered where
  they sort by it. The arithmetic the cart uses comes with it as a record: the literal
  \<open>0.0\<close>, addition, multiplication and the conversion of an \<open>int\<close> that \<open>float * int\<close>
  makes first. Ids, in rows and in requests, are taken within the range of their column.
\<close>

datatype Category = microphone | headphones | interface

record 'f GearItem =
  g_id :: int
  g_name :: string
  g_category :: Category
  g_brand :: string
  g_price :: 'f
  g_in_stock :: bool
  g_rating :: "'f option"
  g_description :: "string option"
  g_image_url :: "string option"

record UserORM =
  u_id :: int
  u_username :: string
  u_hashed_password :: string
  u_is_admin :: bool

record CartItemORM =
  c_id :: int
  c_user_id :: int
  c_gear_item_id :: int
  c_quantity :: int

record 'f db =
  users :: "UserORM list"
  gear_items :: "'f GearItem list"
  cart_items :: "CartItemORM list"

record 'f PagedResponse =
  items :: "'f GearItem list"
  total :: int
  page :: int
  page_size :: int
  pages :: int

record 'f float_arith =
  f_zero :: 'f
  f_add :: "'f \<Rightarrow> 'f \<Rightarrow> 'f"
  f_mul :: "'f \<Rightarrow> 'f \<Rightarrow> 'f"
  f_of_int :: "int \<Rightarrow> 'f"

text \<open>What an INTEGER column of SQLite holds: a signed 64-bit integer.\<close>

definition sqlite_integer :: "int \<Rightarrow> bool" where
  "sqlite_integer v = (- (2 ^ 63) \<le> v \<and> v < 2 ^ 63)"

section \<open>Catalog query engine\<close>

text \<open>\<open>(q or "").strip().lower()\<close>\<close>

definition q_norm :: "string option \<Rightarrow> string" where
  "q_norm q = py_lower (strip (case q of None \<Rightarrow> [] | Some s \<Rightarrow> s))"

text \<open>
  The WHERE clause shared by the listing query and its count statement: the category
  filter when a category is given, the LIKE search when the normalised term is not empty.
\<close>

definition gear_where :: "Category option \<Rightarrow> string \<Rightarrow> 'f GearItem \<Rightarrow> bool" where
  "gear_where category qn m =
     ((case category of None \<Rightarrow> True | Some c \<Rightarrow> g_category m = c) \<and>
      (qn = [] \<or> like (sql_lower (g_name m)) (''%'' @ qn @ ''%'')))"

text \<open>The tail both listings share: clamp the page, slice with OFFSET and LIMIT.\<close>

definition paginate :: "'f GearItem list \<Rightarrow> int \<Rightarrow> int \<Rightarrow> int \<Rightarrow> 'f PagedResponse" where
  "paginate query n pg pg_size =
     (let pgs = max 1 ((n + pg_size - 1) div pg_size);
          pg' = (if pg > pgs then pgs else pg);
          start = (pg' - 1) * pg_size
      in \<lparr>items = take (nat pg_size) (drop (nat start) query),
          total = n, page = pg', page_size = pg_size, pages = pgs\<rparr>)"

text \<open>
  The \<open># Sorting\<close> section of \<open>list_gear\<close>. SQLAlchemy's column attributes have
  \<open>nulls_last\<close>, so the \<open>hasattr\<close> test of the \<open>rating_desc\<close> branch holds and its
  first alternative is the one taken.
\<close>

definition gear_sorting ::
  "string option \<Rightarrow> string \<Rightarrow> ('f::linorder) GearItem list \<Rightarrow> error + 'f GearItem list" where
  "gear_sorting srt qn rows =
     (if srt = Some ''price_asc'' then
        order_by [asc (col g_price), asc (col (\<lambda>m. sql_lower (g_name m)))] rows
      else if srt = Some ''price_desc'' then
        order_by [desc (col g_price), asc (col (\<lambda>m. sql_lower (g_name m)))] rows
      else if srt = Some ''name_asc'' then
        order_by [asc (col (\<lambda>m. sql_lower (g_name m)))] rows
      else if srt = Some ''rating_desc'' then
        order_by [desc (nulls_last (nullable g_rating)), asc (col g_price)] rows
      else if srt = Some ''in_stock'' then
        order_by [asc (col (\<lambda>m. \<not> g_in_stock m)), asc (col g_price)] rows
      else if qn \<noteq> [] then
        order_by [asc (col (\<lambda>m. instr (sql_lower (g_name m)) qn)),
                  asc (col (\<lambda>m. length (g_name m)))] rows
      else
        order_by [asc (col (\<lambda>m. sql_lower (g_name m)))] rows)"

text \<open>
  The count statement runs first and has no ORDER BY; the listing query runs after it,
  and what it raises leaves the handler.
\<close>

definition list_gear ::
  "('f::linorder) db \<Rightarrow> Category option \<Rightarrow> string option \<Rightarrow> string option \<Rightarrow> int \<Rightarrow> int \<Rightarrow>
   error + 'f PagedResponse" where
  "list_gear d category q srt pg pg_size =
     (let qn = q_norm q;
          n = int (length (filter (gear_where category qn) (gear_items d)))
      in case gear_sorting srt qn (filter (gear_where category qn) (gear_items d)) of
           Inl e \<Rightarrow> Inl e
         | Inr query \<Rightarrow> Inr (paginate query n pg pg_size))"

text \<open>The \<open># Sorting\<close> section of \<open>admin_list_gear\<close>.\<close>

definition admin_gear_sorting ::
  "string option \<Rightarrow> ('f::linorder) GearItem list \<Rightarrow> error + 'f GearItem list" where
  "admin_gear_sorting srt rows =
     (if srt = Some ''name_desc'' then
        order_by [desc (col (\<lambda>m. sql_lower (g_name m)))] rows
      else if srt = Some ''price_asc'' then
        order_by [asc (col g_price), asc (col (\<lambda>m. sql_lower (g_name m)))] rows
      else if srt = Some ''price_desc'' then
        order_by [desc (col g_price), asc (col (\<lambda>m. sql_lower (g_name m)))] rows
      else if srt = Some ''rating_desc'' then
        order_by [desc (nullable g_rating), asc (col (\<lambda>m. sql_lower (g_name m)))] rows
      else if srt = Some ''id_asc'' then
        order_by [asc (col g_id)] rows
      else if srt = Some ''id_desc'' then
        order_by [desc (col g_id)] rows
      else
        order_by [asc (col (\<lambda>m. sql_lower (g_name m)))] rows)"

text \<open>
  \<open>admin_list_gear\<close> runs behind \<open>Depends(get_current_admin)\<close>; its body does not look at
  the admin it was given.
\<close>

definition admin_list_gear ::
  "('f::linorder) db \<Rightarrow> Category option \<Rightarrow> string option \<Rightarrow> string option \<Rightarrow> int \<Rightarrow> int \<Rightarrow>
   error + 'f PagedResponse" where
  "admin_list_gear d category q srt pg pg_size =
     (let qn = q_norm q;
          n = int (length (filter (gear_where category qn) (gear_items d)))
      in case admin_gear_sorting srt (filter (gear_where category qn) (gear_items d)) of
           Inl e \<Rightarrow> Inl e
         | Inr query \<Rightarrow> Inr (paginate query n pg pg_size))"

section \<open>Single-row selects\<close>

fun scalar_one_or_none :: "'a list \<Rightarrow> error + 'a option" where
  "scalar_one_or_none [] = Inr None"
| "scalar_one_or_none [x] = Inr (Some x)"
| "scalar_one_or_none (x # y # zs) = Inl MultipleResultsFound"

text \<open>SQLite gives a new row of an INTEGER PRIMARY KEY table the largest rowid plus one.\<close>

definition next_id :: "int list \<Rightarrow> int" where
  "next_id ids = fold max ids 0 + 1"

section \<open>Authentication (\<open>auth.py\<close>)\<close>

text \<open>
  The password hashing context (passlib) and the token codec (jose) are libraries outside
  the repository. Each function that calls one takes it as an argument: \<open>pwd_hash\<close> and
  \<open>pwd_verify\<close> for \<open>pwd_context.hash\<close> and \<open>pwd_context.verify\<close>, \<open>jwt_encode\<close> and
  \<open>jwt_decode\<close> for \<open>jwt.encode\<close> and \<open>jwt.decode\<close>, the latter returning \<^const>\<open>None\<close>
  where the library raises \<open>JWTError\<close> (bad signature, expired, malformed). \<open>utcnow\<close> is
  the clock, in seconds.
\<close>

record UserBase =
  username :: string
  is_admin :: bool

record User = UserBase +
  uid :: "int option"

record UserInDB = UserBase +
  hashed_password :: string

record Token =
  access_token :: string
  token_type :: string

record TokenPayload =
  sub :: "string option"
  exp :: "int option"

record RegisterRequest =
  reg_username :: string
  reg_password :: string

record OAuth2PasswordRequestForm =
  form_username :: string
  form_password :: string

record HTTPAuthorizationCredentials =
  scheme :: string
  credentials :: string

definition SECRET_KEY :: string where
  "SECRET_KEY = ''dev-secret-change-me''"

definition ALGORITHM :: string where
  "ALGORITHM = ''HS256''"

definition ACCESS_TOKEN_EXPIRE_MINUTES :: int where
  "ACCESS_TOKEN_EXPIRE_MINUTES = 60"

definition verify_password :: "(string \<Rightarrow> string \<Rightarrow> bool) \<Rightarrow> string \<Rightarrow> string \<Rightarrow> bool" where
  "verify_password pwd_verify plain_password hashed = pwd_verify plain_password hashed"

text \<open>\<open>select(UserORM).where(UserORM.username == username)\<close>, then \<open>scalar_one_or_none\<close>.\<close>

definition find_user :: "'f db \<Rightarrow> string \<Rightarrow> error + UserORM option" where
  "find_user d uname = scalar_one_or_none (filter (\<lambda>u. u_username u = uname) (users d))"

definition authenticate_user ::
  "(string \<Rightarrow> string \<Rightarrow> bool) \<Rightarrow> 'f db \<Rightarrow> string \<Rightarrow> string \<Rightarrow> error + UserInDB option" where
  "authenticate_user pwd_verify d uname password =
     (case find_user d uname of
        Inl e \<Rightarrow> Inl e
      | Inr None \<Rightarrow> Inr None
      | Inr (Some user) \<Rightarrow>
          if \<not> verify_password pwd_verify password (u_hashed_password user) then Inr None
          else Inr (Some \<lparr>username = u_username user, is_admin = u_is_admin user,
                          hashed_password = u_hashed_password user\<rparr>))"

text \<open>
  \<open>expires_delta or timedelta(minutes=ACCESS_TOKEN_EXPIRE_MINUTES)\<close>: an absent delta and
  a zero delta are both falsy.
\<close>

definition create_access_token ::
  "(TokenPayload \<Rightarrow> string \<Rightarrow> string \<Rightarrow> string) \<Rightarrow> int \<Rightarrow> TokenPayload \<Rightarrow> int option \<Rightarrow> string" where
  "create_access_token jwt_encode utcnow data expires_delta =
     (let delta = (case expires_delta of
                     None \<Rightarrow> 60 * ACCESS_TOKEN_EXPIRE_MINUTES
                   | Some dl \<Rightarrow> if dl = 0 then 60 * ACCESS_TOKEN_EXPIRE_MINUTES else dl);
          to_encode = data\<lparr>exp := Some (utcnow + delta)\<rparr>
      in jwt_encode to_encode SECRET_KEY ALGORITHM)"

definition verify_token ::
  "(string \<Rightarrow> string \<Rightarrow> string list \<Rightarrow> TokenPayload option) \<Rightarrow> string \<Rightarrow> string option" where
  "verify_token jwt_decode token =
     (case jwt_decode token SECRET_KEY [ALGORITHM] of
        None \<Rightarrow> None
      | Some payload \<Rightarrow> sub payload)"

definition credentials_exception :: error where
  "credentials_exception = HTTPException 401 ''Could not validate credentials''"

text \<open>
  The token the gate goes on with: the OAuth2 one when it is truthy (present and not
  empty), else the credentials of the HTTP bearer header when that is present.
\<close>

definition presented_token :: "string option \<Rightarrow> HTTPAuthorizationCredentials option \<Rightarrow> string option" where
  "presented_token oauth2_token http_auth =
     (if oauth2_token \<noteq> None \<and> oauth2_token \<noteq> Some [] then oauth2_token
      else case http_auth of None \<Rightarrow> None | Some h \<Rightarrow> Some (credentials h))"

definition get_current_user ::
  "(string \<Rightarrow> string \<Rightarrow> string list \<Rightarrow> TokenPayload option) \<Rightarrow> 'f db \<Rightarrow>
   string option \<Rightarrow> HTTPAuthorizationCredentials option \<Rightarrow> error + User" where
  "get_current_user jwt_decode d oauth2_token http_auth =
     (case presented_token oauth2_token http_auth of
        None \<Rightarrow> Inl credentials_exception
      | Some token \<Rightarrow>
          if token = [] then Inl credentials_exception
          else case verify_token jwt_decode token of
            None \<Rightarrow> Inl credentials_exception
          | Some uname \<Rightarrow>
              if uname = [] then Inl credentials_exception
              else case find_user d uname of
                Inl e \<Rightarrow> Inl e
              | Inr None \<Rightarrow> Inl credentials_exception
              | Inr (Some user_in_db) \<Rightarrow>
                  Inr \<lparr>username = u_username user_in_db, is_admin = u_is_admin user_in_db,
                       uid = None\<rparr>)"

definition get_current_admin :: "User \<Rightarrow> error + User" where
  "get_current_admin current_user =
     (if \<not> is_admin current_user then Inl (HTTPException 403 ''Admin access required'')
      else Inr current_user)"

definition login_for_access_token ::
  "(string \<Rightarrow> string \<Rightarrow> bool) \<Rightarrow> (TokenPayload \<Rightarrow> string \<Rightarrow> string \<Rightarrow> string) \<Rightarrow> int \<Rightarrow> 'f db \<Rightarrow>
   OAuth2PasswordRequestForm \<Rightarrow> error + Token" where
  "login_for_access_token pwd_verify jwt_encode utcnow d form_data =
     (case authenticate_user pwd_verify d (form_username form_data) (form_password form_data) of
        Inl e \<Rightarrow> Inl e
      | Inr None \<Rightarrow> Inl (HTTPException 401 ''Incorrect username or password'')
      | Inr (Some user) \<Rightarrow>
          Inr \<lparr>access_token =
                 create_access_token jwt_encode utcnow \<lparr>sub = Some (username user), exp = None\<rparr> None,
               token_type = ''bearer''\<rparr>)"

text \<open>
  \<open>db.add(user); db.commit()\<close>: the INSERT fails on a username some row already has
  (\<open>unique=True\<close>), and nothing is stored then.
\<close>

definition insert_user :: "'f db \<Rightarrow> string \<Rightarrow> string \<Rightarrow> bool \<Rightarrow> error + 'f db" where
  "insert_user d uname hashed adm =
     (if uname \<in> set (map u_username (users d)) then Inl IntegrityError
      else Inr (d\<lparr>users := users d @
                  [\<lparr>u_id = next_id (map u_id (users d)), u_username = uname,
                    u_hashed_password = hashed, u_is_admin = adm\<rparr>]\<rparr>))"

text \<open>
  Every handler that writes returns its result together with the store as the request
  leaves it: unchanged where it raises before \<open>db.commit()\<close>.
\<close>

definition register_user ::
  "(string \<Rightarrow> string) \<Rightarrow> 'f db \<Rightarrow> RegisterRequest \<Rightarrow> (error + string) \<times> 'f db" where
  "register_user pwd_hash d payload =
     (let uname = strip (reg_username payload);
          password = reg_password payload
      in if length uname < 3 \<or> length uname > 32 then
           (Inl (HTTPException 422 ''Username must be 3-32 characters''), d)
         else if list_ex isspace uname then
           (Inl (HTTPException 422 ''Username must not contain whitespace''), d)
         else if length password < 6 \<or> length password > 128 then
           (Inl (HTTPException 422 ''Password must be 6-128 characters''), d)
         else case scalar_one_or_none
                     (filter (\<lambda>u. sql_lower (u_username u) = py_lower uname) (users d)) of
           Inl e \<Rightarrow> (Inl e, d)
         | Inr (Some existing) \<Rightarrow> (Inl (HTTPException 409 ''Username already taken''), d)
         | Inr None \<Rightarrow>
             (case insert_user d uname (pwd_hash password) False of
                Inl e \<Rightarrow> (Inl e, d)
              | Inr d' \<Rightarrow> (Inr ''registered'', d')))"

section \<open>Cart service (\<open>routes/cart.py\<close>)\<close>

record CartItemAdd =
  add_gear_item_id :: int
  add_quantity :: int

record CartItemUpdate =
  upd_quantity :: int

record 'f CartItemResponse =
  r_id :: int
  r_gear_item_id :: int
  r_quantity :: int
  r_gear_item :: "'f GearItem"

record 'f CartResponse =
  resp_items :: "'f CartItemResponse list"
  resp_total :: 'f

text \<open>\<open>select(GearItemORM).where(GearItemORM.id == item_id)\<close>, then \<open>scalar_one_or_none\<close>.\<close>

definition find_gear :: "'f db \<Rightarrow> int \<Rightarrow> error + 'f GearItem option" where
  "find_gear d item_id = scalar_one_or_none (filter (\<lambda>g. g_id g = item_id) (gear_items d))"

text \<open>
  The \<open>for cart_item in cart_items\<close> loop of \<open>get_cart\<close>, with \<open>items_response\<close> and
  \<open>total\<close> as accumulators: a cart item whose gear item is not found is passed over, and
  \<open>total += gear.price * cart_item.quantity\<close> is one multiplication and one addition of
  the float arithmetic \<open>fa\<close>.
\<close>

fun cart_loop ::
  "'f float_arith \<Rightarrow> 'f db \<Rightarrow> CartItemORM list \<Rightarrow> 'f CartItemResponse list \<Rightarrow> 'f \<Rightarrow>
   error + 'f CartResponse" where
  "cart_loop fa d [] items_response tot = Inr \<lparr>resp_items = items_response, resp_total = tot\<rparr>"
| "cart_loop fa d (cart_item # rest) items_response tot =
     (case find_gear d (c_gear_item_id cart_item) of
        Inl e \<Rightarrow> Inl e
      | Inr None \<Rightarrow> cart_loop fa d rest items_response tot
      | Inr (Some gear) \<Rightarrow>
          cart_loop fa d rest
            (items_response @
               [\<lparr>r_id = c_id cart_item, r_gear_item_id = c_gear_item_id cart_item,
                 r_quantity = c_quantity cart_item, r_gear_item = gear\<rparr>])
            (f_add fa tot (f_mul fa (g_price gear) (f_of_int fa (c_quantity cart_item)))))"

definition get_cart :: "'f float_arith \<Rightarrow> 'f db \<Rightarrow> User \<Rightarrow> error + 'f CartResponse" where
  "get_cart fa d current_user =
     (case find_user d (username current_user) of
        Inl e \<Rightarrow> Inl e
      | Inr None \<Rightarrow> Inl (HTTPException 404 ''User not found'')
      | Inr (Some user) \<Rightarrow>
          cart_loop fa d (filter (\<lambda>c. c_user_id c = u_id user) (cart_items d)) [] (f_zero fa))"

text \<open>
  The unit of work writes a changed row back by its primary key (\<open>UPDATE ... WHERE id\<close>),
  inserts a new row, and deletes a row by its primary key (\<open>DELETE ... WHERE id\<close>). The
  quantity a write binds must fit the INTEGER column: the driver raises \<open>OverflowError\<close>
  on any other Python integer, \<open>db.commit()\<close> fails and nothing is stored.
\<close>

definition set_quantity :: "CartItemORM \<Rightarrow> int \<Rightarrow> CartItemORM list \<Rightarrow> error + CartItemORM list" where
  "set_quantity row v tbl =
     (if sqlite_integer v
      then Inr (map (\<lambda>c. if c_id c = c_id row then c\<lparr>c_quantity := v\<rparr> else c) tbl)
      else Inl OverflowError)"

definition insert_cart_item :: "int \<Rightarrow> int \<Rightarrow> int \<Rightarrow> CartItemORM list \<Rightarrow> error + CartItemORM list" where
  "insert_cart_item user_id gear_item_id v tbl =
     (if sqlite_integer v
      then Inr (tbl @ [\<lparr>c_id = next_id (map c_id tbl), c_user_id = user_id,
                        c_gear_item_id = gear_item_id, c_quantity = v\<rparr>])
      else Inl OverflowError)"

definition delete_cart_item :: "CartItemORM \<Rightarrow> CartItemORM list \<Rightarrow> CartItemORM list" where
  "delete_cart_item row tbl = filter (\<lambda>c. c_id c \<noteq> c_id row) tbl"

definition add_to_cart ::
  "'f float_arith \<Rightarrow> 'f db \<Rightarrow> CartItemAdd \<Rightarrow> User \<Rightarrow> (error + 'f CartResponse) \<times> 'f db" where
  "add_to_cart fa d payload current_user =
     (case find_user d (username current_user) of
        Inl e \<Rightarrow> (Inl e, d)
      | Inr None \<Rightarrow> (Inl (HTTPException 404 ''User not found''), d)
      | Inr (Some user) \<Rightarrow>
          (case find_gear d (add_gear_item_id payload) of
             Inl e \<Rightarrow> (Inl e, d)
           | Inr None \<Rightarrow> (Inl (HTTPException 404 ''Gear item not found''), d)
           | Inr (Some gear) \<Rightarrow>
               (case scalar_one_or_none
                       (filter (\<lambda>c. c_user_id c = u_id user \<and>
                                     c_gear_item_id c = add_gear_item_id payload)
                          (cart_items d)) of
                  Inl e \<Rightarrow> (Inl e, d)
                | Inr existing \<Rightarrow>
                    (case (case existing of
                             Some row \<Rightarrow>
                               set_quantity row (c_quantity row + add_quantity payload)
                                 (cart_items d)
                           | None \<Rightarrow>
                               insert_cart_item (u_id user) (add_gear_item_id payload)
                                 (add_quantity payload) (cart_items d)) of
                       Inl e \<Rightarrow> (Inl e, d)
                     | Inr tbl \<Rightarrow>
                         (let d' = d\<lparr>cart_items := tbl\<rparr>
                          in (get_cart fa d' current_user, d'))))))"

text \<open>
  The cart item of \<open>update_cart_item\<close> and \<open>remove_from_cart\<close> is selected by its id
  and the caller's user id together.
\<close>

definition find_cart_item :: "'f db \<Rightarrow> int \<Rightarrow> int \<Rightarrow> error + CartItemORM option" where
  "find_cart_item d cart_item_id user_id =
     scalar_one_or_none
       (filter (\<lambda>c. c_id c = cart_item_id \<and> c_user_id c = user_id) (cart_items d))"

definition update_cart_item ::
  "'f float_arith \<Rightarrow> 'f db \<Rightarrow> int \<Rightarrow> CartItemUpdate \<Rightarrow> User \<Rightarrow> (error + 'f CartResponse) \<times> 'f db" where
  "update_cart_item fa d cart_item_id payload current_user =
     (case find_user d (username current_user) of
        Inl e \<Rightarrow> (Inl e, d)
      | Inr None \<Rightarrow> (Inl (HTTPException 404 ''User not found''), d)
      | Inr (Some user) \<Rightarrow>
          (case find_cart_item d cart_item_id (u_id user) of
             Inl e \<Rightarrow> (Inl e, d)
           | Inr None \<Rightarrow> (Inl (HTTPException 404 ''Cart item not found''), d)
           | Inr (Some cart_item) \<Rightarrow>
               (case (if upd_quantity payload \<le> 0
                      then Inr (delete_cart_item cart_item (cart_items d))
                      else set_quantity cart_item (upd_quantity payload) (cart_items d)) of
                  Inl e \<Rightarrow> (Inl e, d)
                | Inr tbl \<Rightarrow>
                    (let d' = d\<lparr>cart_items := tbl\<rparr>
                     in (get_cart fa d' current_user, d')))))"

definition remove_from_cart ::
  "'f float_arith \<Rightarrow> 'f db \<Rightarrow> int \<Rightarrow> User \<Rightarrow> (error + 'f CartResponse) \<times> 'f db" where
  "remove_from_cart fa d cart_item_id current_user =
     (case find_user d (username current_user) of
        Inl e \<Rightarrow> (Inl e, d)
      | Inr None \<Rightarrow> (Inl (HTTPException 404 ''User not found''), d)
      | Inr (Some user) \<Rightarrow>
          (case find_cart_item d cart_item_id (u_id user) of
             Inl e \<Rightarrow> (Inl e, d)
           | Inr None \<Rightarrow> (Inl (HTTPException 404 ''Cart item not found''), d)
           | Inr (Some cart_item) \<Rightarrow>
               (let d' = d\<lparr>cart_items := delete_cart_item cart_item (cart_items d)\<rparr>
                in (get_cart fa d' current_user, d'))))"

section \<open>User deletion (\<open>routes/admin.py\<close>)\<close>

text \<open>
  \<open>current_user\<close> is what \<open>get_current_admin\<close> returned. The loop deletes each loaded
  cart item, then the user row goes, and one \<open>db.commit()\<close> ends the unit of work.
\<close>

definition admin_delete_user :: "'f db \<Rightarrow> int \<Rightarrow> User \<Rightarrow> (error + unit) \<times> 'f db" where
  "admin_delete_user d user_id current_user =
     (case scalar_one_or_none (filter (\<lambda>u. u_id u = user_id) (users d)) of
        Inl e \<Rightarrow> (Inl e, d)
      | Inr None \<Rightarrow> (Inl (HTTPException 404 ''User not found''), d)
      | Inr (Some user_to_delete) \<Rightarrow>
          if u_username user_to_delete = username current_user then
            (Inl (HTTPException 403 ''Cannot delete your own account''), d)
          else if u_username user_to_delete = ''admin'' \<and> u_is_admin user_to_delete then
            (Inl (HTTPException 403 ''Cannot delete the default admin account''), d)
          else
            (let loaded = filter (\<lambda>c. c_user_id c = user_id) (cart_items d);
                 tbl = fold delete_cart_item loaded (cart_items d)
             in (Inr (),
                 d\<lparr>cart_items := tbl,
                   users := filter (\<lambda>u. u_id u \<noteq> u_id user_to_delete) (users d)\<rparr>)))"

section \<open>Store invariants\<close>

text \<open>
  What the schema and the handlers keep true of every store: primary keys are unique,
  usernames are unique (\<open>unique=True\<close>), and no username is empty (the seed names are
  literals, and \<open>register_user\<close> refuses fewer than three characters).
\<close>

definition db_ok :: "'f db \<Rightarrow> bool" where
  "db_ok d =
     (distinct (map u_id (users d)) \<and> distinct (map u_username (users d)) \<and>
      [] \<notin> set (map u_username (users d)) \<and>
      distinct (map g_id (gear_items d)) \<and> distinct (map c_id (cart_items d)))"

section \<open>A small store for the worked examples\<close>

text \<open>
  The examples take \<^typ>\<open>real\<close> for the floats, with exact arithmetic: on the prices
  and quantities of this store the doubles give the same sums.
\<close>

definition shure :: "real GearItem" where
  "shure = \<lparr>g_id = 1, g_name = ''Shure SM58'', g_category = microphone, g_brand = ''Shure'',
            g_price = 429, g_in_stock = True, g_rating = Some 4.8,
            g_description = Some ''Dynamic vocal microphone'', g_image_url = None\<rparr>"

definition sony :: "real GearItem" where
  "sony = \<lparr>g_id = 2, g_name = ''Sony MDR-7506'', g_category = headphones, g_brand = ''Sony'',
           g_price = 449, g_in_stock = True, g_rating = Some 4.7,
           g_description = None, g_image_url = None\<rparr>"

definition motu :: "real GearItem" where
  "motu = \<lparr>g_id = 3, g_name = ''MOTU M2'', g_category = interface, g_brand = ''MOTU'',
           g_price = 899, g_in_stock = True, g_rating = Some 4.8,
           g_description = None, g_image_url = None\<rparr>"

definition demo_db :: "real db" where
  "demo_db =
     \<lparr>users = [\<lparr>u_id = 1, u_username = ''admin'', u_hashed_password = ''h:admin'', u_is_admin = True\<rparr>,
               \<lparr>u_id = 2, u_username = ''user1'', u_hashed_password = ''h:password1'', u_is_admin = False\<rparr>,
               \<lparr>u_id = 3, u_username = ''testadmin'', u_hashed_password = ''h:admin123'', u_is_admin = True\<rparr>],
      gear_items = [shure, sony, motu],
      cart_items = [\<lparr>c_id = 1, c_user_id = 2, c_gear_item_id = 1, c_quantity = 2\<rparr>,
                    \<lparr>c_id = 2, c_user_id = 2, c_gear_item_id = 9, c_quantity = 1\<rparr>,
                    \<lparr>c_id = 3, c_user_id = 3, c_gear_item_id = 3, c_quantity = 1\<rparr>]\<rparr>"

definition demo_arith :: "real float_arith" where
  "demo_arith = \<lparr>f_zero = 0, f_add = (+), f_mul = (*), f_of_int = of_int\<rparr>"

text \<open>A stand-in for the hashing context and the token codec in the worked examples.\<close>

definition demo_hash :: "string \<Rightarrow> string" where
  "demo_hash p = ''h:'' @ p"

definition demo_verify :: "string \<Rightarrow> string \<Rightarrow> bool" where
  "demo_verify p h = (h = ''h:'' @ p)"

definition demo_encode :: "TokenPayload \<Rightarrow> string \<Rightarrow> string \<Rightarrow> string" where
  "demo_encode payload key alg = (case sub payload of None \<Rightarrow> ''anon'' | Some s \<Rightarrow> ''tok:'' @ s)"

definition demo_decode :: "string \<Rightarrow> string \<Rightarrow> string list \<Rightarrow> TokenPayload option" where
  "demo_decode token key algs =
     (if take 4 token = ''tok:'' then Some \<lparr>sub = Some (drop 4 token), exp = Some 0\<rparr> else None)"

text \<open>Two callers of the example store, as \<open>get_current_user\<close> returns them.\<close>

definition user1 :: User where
  "user1 = \<lparr>username = ''user1'', is_admin = False, uid = None\<rparr>"


section \<open>Notions the statements use\<close>

text \<open>
  "Rating descending, absent ratings after present ones", as a strict order on the
  \<open>rating\<close> column: a higher rating comes before a lower one, any rating before none.
\<close>

fun rating_before :: "('f::linorder) option \<Rightarrow> 'f option \<Rightarrow> bool" where
  "rating_before (Some x) (Some y) = (y < x)"
| "rating_before (Some x) None = True"
| "rating_before None r = False"

text \<open>What the sorting lemmas ask of a comparison.\<close>

definition total_preorder :: "('a \<Rightarrow> 'a \<Rightarrow> bool) \<Rightarrow> bool" where
  "total_preorder t = ((\<forall>a b. t a b \<or> t b a) \<and> (\<forall>a b c. t a b \<and> t b c \<longrightarrow> t a c))"

text \<open>
  The response entry of a cart row, where its gear item exists, and the step by which
  the total grows with an entry: the sum of price times quantity, taken left to right
  from \<open>0.0\<close> in the float arithmetic, is the \<^const>\<open>foldl\<close> of this step.
\<close>

definition cart_entry :: "'f db \<Rightarrow> CartItemORM \<Rightarrow> 'f CartItemResponse option" where
  "cart_entry d c =
     map_option
       (\<lambda>g. \<lparr>r_id = c_id c, r_gear_item_id = c_gear_item_id c, r_quantity = c_quantity c,
             r_gear_item = g\<rparr>)
       (find (\<lambda>g. g_id g = c_gear_item_id c) (gear_items d))"

definition add_line :: "'f float_arith \<Rightarrow> 'f \<Rightarrow> 'f CartItemResponse \<Rightarrow> 'f" where
  "add_line fa tot r = f_add fa tot (f_mul fa (g_price (r_gear_item r)) (f_of_int fa (r_quantity r)))"

section \<open>Pagination\<close>

lemma length_insort_le: "length (insort_le le x xs) = Suc (length xs)"
  by (induction xs) auto

lemma length_foldr_insort_le: "length (foldr (insort_le le) rows []) = length rows"
  by (induction rows) (auto simp: length_insort_le)

lemma order_by_length: "order_by ts rows = Inr query \<Longrightarrow> length query = length rows"
  by (auto simp: order_by_def length_foldr_insort_le split: if_splits)

lemma modifiers_simps [simp]:
  "modifiers (col k) = []" "modifiers (nullable j) = []"
  "modifiers (asc t) = modifiers t @ [ASC]" "modifiers (desc t) = modifiers t @ [DESC]"
  "modifiers (nulls_last t) = modifiers t @ [NULLS_LAST]"
  by (simp_all add: col_def nullable_def asc_def desc_def nulls_last_def)

lemma div_bounds:
  fixes n sz :: int
  assumes "0 < sz"
  defines "k \<equiv> (n + sz - 1) div sz"
  shows "n \<le> k * sz" and "(k - 1) * sz < n"
proof -
  have e: "n + sz - 1 = sz * k + (n + sz - 1) mod sz"
    unfolding k_def by simp
  have lo: "0 \<le> (n + sz - 1) mod sz" and hi: "(n + sz - 1) mod sz < sz"
    using assms(1) by simp_all
  from e hi show "n \<le> k * sz" by (simp add: algebra_simps)
  from e lo show "(k - 1) * sz < n" by (simp add: algebra_simps)
qed

lemma ceil_div:
  fixes n sz :: int
  assumes "0 < sz"
  shows "(n + sz - 1) div sz = \<lceil>real_of_int n / real_of_int sz\<rceil>"
proof -
  let ?k = "(n + sz - 1) div sz"
  have a: "n \<le> ?k * sz" and b: "(?k - 1) * sz < n"
    using div_bounds [OF assms] by simp_all
  have "real_of_int n \<le> real_of_int (?k * sz)" using a by linarith
  then have u: "real_of_int n / real_of_int sz \<le> real_of_int ?k"
    using assms by (simp add: pos_divide_le_eq)
  have "real_of_int ((?k - 1) * sz) < real_of_int n" using b by linarith
  then have l: "real_of_int ?k - 1 < real_of_int n / real_of_int sz"
    using assms by (simp add: pos_less_divide_eq)
  have "\<lceil>real_of_int n / real_of_int sz\<rceil> = ?k"
    by (rule ceiling_unique) (use u l in simp_all)
  then show ?thesis by simp
qed

lemma last_page_start:
  fixes n sz :: int
  assumes "0 < sz" "0 < n"
  shows "(max 1 ((n + sz - 1) div sz) - 1) * sz < n"
proof (cases "1 \<le> (n + sz - 1) div sz")
  case True
  then show ?thesis using div_bounds(2) [OF assms(1), of n] by (simp add: max_def)
next
  case False
  then show ?thesis using assms by (simp add: max_def)
qed


lemma paginate_facts:
  fixes pg sz :: int and query :: "'f GearItem list"
  assumes pg: "1 \<le> pg" and sz: "1 \<le> sz"
  defines "n \<equiv> int (length query)"
  defines "last_page \<equiv> max 1 \<lceil>real_of_int n / real_of_int sz\<rceil>"
  defines "r \<equiv> paginate query n pg sz"
  shows "total r = n" and "pages r = last_page" and "page r = min pg last_page"
    and "items r = take (nat sz) (drop (nat ((min pg last_page - 1) * sz)) query)"
    and "last_page < pg \<Longrightarrow> r = paginate query n last_page sz"
    and "0 < n \<Longrightarrow> items r \<noteq> []"
proof -
  have c: "max 1 ((n + sz - 1) div sz) = last_page"
    unfolding last_page_def using ceil_div [of sz n] sz by simp
  show "total r = n" by (simp add: r_def paginate_def Let_def)
  show "pages r = last_page" using c by (simp add: r_def paginate_def Let_def)
  show "page r = min pg last_page" using c by (simp add: r_def paginate_def Let_def min_def)
  show i: "items r = take (nat sz) (drop (nat ((min pg last_page - 1) * sz)) query)"
    using c by (simp add: r_def paginate_def Let_def min_def)
  show "r = paginate query n last_page sz" if "last_page < pg"
    using c that by (simp add: r_def paginate_def Let_def)
  show "items r \<noteq> []" if pos: "0 < n"
  proof -
    have "(min pg last_page - 1) * sz \<le> (last_page - 1) * sz"
      using sz by (intro mult_right_mono) simp_all
    also have "\<dots> < n" using last_page_start [of sz n] sz pos c by simp
    finally have "(min pg last_page - 1) * sz < int (length query)"
      unfolding n_def .
    moreover have "0 \<le> (min pg last_page - 1) * sz"
      using pg sz by (simp add: last_page_def)
    ultimately have "nat ((min pg last_page - 1) * sz) < length query"
      by (simp add: nat_less_iff)
    then show ?thesis using sz by (simp add: i)
  qed
qed

lemma gear_sorting_rating_desc:
  "gear_sorting (Some ''rating_desc'') qn rows = Inl OperationalError"
  by (simp add: gear_sorting_def order_by_def)

lemma gear_sorting_other:
  assumes "srt \<noteq> Some ''rating_desc''"
  shows "\<exists>query. gear_sorting srt qn rows = Inr query \<and> length query = length rows"
  using assms by (simp add: gear_sorting_def order_by_def length_foldr_insort_le)

lemma admin_gear_sorting_returns:
  "\<exists>query. admin_gear_sorting srt rows = Inr query \<and> length query = length rows"
  by (simp add: admin_gear_sorting_def order_by_def length_foldr_insort_le)

text \<open>
  Where the listing query runs, the response is the one the specification describes:
  \<open>total\<close> is the number of rows that pass the filter and the search, \<open>pages\<close> is
  \<open>max(1, ceil(total / pageSize))\<close>, \<open>page\<close> is the requested page clamped to it, and
  the items are the rows of that page in the sorted order, none missing while a row
  matches. This holds of the admin listing, and of the public listing under every sort
  key but \<open>rating_desc\<close>.
\<close>

lemma admin_list_gear_pagination:
  fixes d :: "('f::linorder) db" and category :: "Category option" and q :: "string option"
    and pg sz :: int
  assumes "1 \<le> pg" and "1 \<le> sz"
  defines "rows \<equiv> filter (gear_where category (q_norm q)) (gear_items d)"
  defines "last_page \<equiv> max 1 \<lceil>real_of_int (int (length rows)) / real_of_int sz\<rceil>"
  shows "\<exists>r query.
           admin_list_gear d category q srt pg sz = Inr r \<and>
           admin_gear_sorting srt rows = Inr query \<and>
           total r = int (length rows) \<and> pages r = last_page \<and>
           page r = min pg last_page \<and> page_size r = sz \<and>
           items r = take (nat sz) (drop (nat ((min pg last_page - 1) * sz)) query) \<and>
           (rows \<noteq> [] \<longrightarrow> items r \<noteq> [])"
proof -
  obtain query where s: "admin_gear_sorting srt rows = Inr query" and l: "length query = length rows"
    using admin_gear_sorting_returns [of srt rows] by blast
  have r: "admin_list_gear d category q srt pg sz = Inr (paginate query (int (length query)) pg sz)"
    using s l by (simp add: admin_list_gear_def Let_def rows_def)
  have "page_size (paginate query (int (length query)) pg sz) = sz"
    by (simp add: paginate_def Let_def)
  then show ?thesis
    using paginate_facts [OF assms(1,2), of query] r s
    unfolding l last_page_def by auto
qed

lemma list_gear_pagination:
  fixes d :: "('f::linorder) db" and category :: "Category option" and q :: "string option"
    and pg sz :: int
  assumes "1 \<le> pg" and "1 \<le> sz" and "srt \<noteq> Some ''rating_desc''"
  defines "rows \<equiv> filter (gear_where category (q_norm q)) (gear_items d)"
  defines "last_page \<equiv> max 1 \<lceil>real_of_int (int (length rows)) / real_of_int sz\<rceil>"
  shows "\<exists>r query.
           list_gear d category q srt pg sz = Inr r \<and>
           gear_sorting srt (q_norm q) rows = Inr query \<and>
           total r = int (length rows) \<and> pages r = last_page \<and>
           page r = min pg last_page \<and> page_size r = sz \<and>
           items r = take (nat sz) (drop (nat ((min pg last_page - 1) * sz)) query) \<and>
           (rows \<noteq> [] \<longrightarrow> items r \<noteq> [])"
proof -
  obtain query where s: "gear_sorting srt (q_norm q) rows = Inr query"
    and l: "length query = length rows"
    using gear_sorting_other [OF assms(3), of "q_norm q" rows] by blast
  have r: "list_gear d category q srt pg sz = Inr (paginate query (int (length query)) pg sz)"
    using s l by (simp add: list_gear_def Let_def rows_def)
  have "page_size (paginate query (int (length query)) pg sz) = sz"
    by (simp add: paginate_def Let_def)
  then show ?thesis
    using paginate_facts [OF assms(1,2), of query] r s
    unfolding l last_page_def by auto
qed

lemma admin_list_gear_beyond:
  fixes d :: "('f::linorder) db" and category :: "Category option" and q :: "string option"
    and pg sz :: int
  assumes "1 \<le> pg" and "1 \<le> sz"
  defines "rows \<equiv> filter (gear_where category (q_norm q)) (gear_items d)"
  defines "last_page \<equiv> max 1 \<lceil>real_of_int (int (length rows)) / real_of_int sz\<rceil>"
  assumes "last_page < pg"
  shows "admin_list_gear d category q srt pg sz = admin_list_gear d category q srt last_page sz"
proof -
  obtain query where s: "admin_gear_sorting srt rows = Inr query" and l: "length query = length rows"
    using admin_gear_sorting_returns [of srt rows] by blast
  have "paginate query (int (length query)) pg sz =
      paginate query (int (length query)) (max 1 \<lceil>real_of_int (int (length query)) / real_of_int sz\<rceil>) sz"
    using paginate_facts(5) [OF assms(1,2), of query] assms(5) unfolding last_page_def l by simp
  then show ?thesis
    using s l by (simp add: admin_list_gear_def Let_def rows_def [symmetric] last_page_def)
qed

lemma list_gear_beyond:
  fixes d :: "('f::linorder) db" and category :: "Category option" and q :: "string option"
    and pg sz :: int
  assumes "1 \<le> pg" and "1 \<le> sz"
  defines "rows \<equiv> filter (gear_where category (q_norm q)) (gear_items d)"
  defines "last_page \<equiv> max 1 \<lceil>real_of_int (int (length rows)) / real_of_int sz\<rceil>"
  assumes "last_page < pg"
  shows "list_gear d category q srt pg sz = list_gear d category q srt last_page sz"
proof (cases "gear_sorting srt (q_norm q) rows")
  case (Inl e)
  then show ?thesis by (simp add: list_gear_def Let_def rows_def [symmetric])
next
  case (Inr query)
  then have l: "length query = length rows"
    by (auto simp: gear_sorting_def order_by_def length_foldr_insort_le split: if_splits)
  have "paginate query (int (length query)) pg sz =
      paginate query (int (length query)) (max 1 \<lceil>real_of_int (int (length query)) / real_of_int sz\<rceil>) sz"
    using paginate_facts(5) [OF assms(1,2), of query] assms(5) unfolding last_page_def l by simp
  then show ?thesis
    using Inr l by (simp add: list_gear_def Let_def rows_def [symmetric] last_page_def)
qed

text \<open>
  Claim C1. Let a request have a page of at least 1 and a page size of at least 1, with
  any category, search term and sort key. The admin listing, and the public listing
  under every sort key but \<open>rating_desc\<close>, return a response: \<open>total\<close> is the number
  of rows that pass the filter and the search, \<open>pages\<close> is
  \<open>max(1, ceil(total / pageSize))\<close>, \<open>page\<close> is the requested page clamped to \<open>pages\<close>,
  the items are the rows of that page of the sorted rows, at least one while a row
  matches, and a page beyond the last gets the response of the last page. The public
  listing with \<open>sort=rating_desc\<close> does not: its ORDER BY has the term
  \<open>rating NULLS LAST DESC\<close>, which SQLite does not parse, and the handler raises
  \<open>OperationalError\<close> whatever the store, the filter, the search term, the page and the
  page size are.
\<close>

theorem gear_listing_pagination:
  fixes d :: "('f::linorder) db" and category :: "Category option" and q srt :: "string option"
    and pg sz :: int
  assumes pg: "1 \<le> pg" and sz: "1 \<le> sz"
  defines "rows \<equiv> filter (gear_where category (q_norm q)) (gear_items d)"
  defines "last_page \<equiv> max 1 \<lceil>real_of_int (int (length rows)) / real_of_int sz\<rceil>"
  shows "(\<exists>r query.
            admin_list_gear d category q srt pg sz = Inr r \<and>
            admin_gear_sorting srt rows = Inr query \<and>
            total r = int (length rows) \<and> pages r = last_page \<and>
            page r = min pg last_page \<and> page_size r = sz \<and>
            items r = take (nat sz) (drop (nat ((min pg last_page - 1) * sz)) query) \<and>
            (rows \<noteq> [] \<longrightarrow> items r \<noteq> [])) \<and>
         (last_page < pg \<longrightarrow>
            admin_list_gear d category q srt pg sz =
            admin_list_gear d category q srt last_page sz) \<and>
         (srt \<noteq> Some ''rating_desc'' \<longrightarrow>
            (\<exists>r query.
               list_gear d category q srt pg sz = Inr r \<and>
               gear_sorting srt (q_norm q) rows = Inr query \<and>
               total r = int (length rows) \<and> pages r = last_page \<and>
               page r = min pg last_page \<and> page_size r = sz \<and>
               items r = take (nat sz) (drop (nat ((min pg last_page - 1) * sz)) query) \<and>
               (rows \<noteq> [] \<longrightarrow> items r \<noteq> []))) \<and>
         (last_page < pg \<longrightarrow>
            list_gear d category q srt pg sz = list_gear d category q srt last_page sz) \<and>
         (srt = Some ''rating_desc'' \<longrightarrow>
            list_gear d category q srt pg sz = Inl OperationalError)"
proof -
  have a: "\<exists>r query.
            admin_list_gear d category q srt pg sz = Inr r \<and>
            admin_gear_sorting srt rows = Inr query \<and>
            total r = int (length rows) \<and> pages r = last_page \<and>
            page r = min pg last_page \<and> page_size r = sz \<and>
            items r = take (nat sz) (drop (nat ((min pg last_page - 1) * sz)) query) \<and>
            (rows \<noteq> [] \<longrightarrow> items r \<noteq> [])"
    unfolding rows_def last_page_def by (rule admin_list_gear_pagination [OF pg sz])
  have b: "last_page < pg \<longrightarrow>
            admin_list_gear d category q srt pg sz =
            admin_list_gear d category q srt last_page sz"
    unfolding rows_def last_page_def by (intro impI admin_list_gear_beyond [OF pg sz])
  have c: "srt \<noteq> Some ''rating_desc'' \<longrightarrow>
            (\<exists>r query.
               list_gear d category q srt pg sz = Inr r \<and>
               gear_sorting srt (q_norm q) rows = Inr query \<and>
               total r = int (length rows) \<and> pages r = last_page \<and>
               page r = min pg last_page \<and> page_size r = sz \<and>
               items r = take (nat sz) (drop (nat ((min pg last_page - 1) * sz)) query) \<and>
               (rows \<noteq> [] \<longrightarrow> items r \<noteq> []))"
    unfolding rows_def last_page_def by (intro impI list_gear_pagination [OF pg sz])
  have e: "last_page < pg \<longrightarrow>
            list_gear d category q srt pg sz = list_gear d category q srt last_page sz"
    unfolding rows_def last_page_def by (intro impI list_gear_beyond [OF pg sz])
  have f: "srt = Some ''rating_desc'' \<longrightarrow> list_gear d category q srt pg sz = Inl OperationalError"
    by (simp add: list_gear_def Let_def gear_sorting_rating_desc)
  show ?thesis
    by (rule conjI [OF a conjI [OF b conjI [OF c conjI [OF e f]]]])
qed

theorem gear_listing_pagination_witness:
  "list_gear demo_db None None (Some ''rating_desc'') 5 2 = Inl OperationalError \<and>
   (\<exists>r. list_gear demo_db None None (Some ''price_asc'') 5 2 = Inr r \<and>
        total r = 3 \<and> pages r = 2 \<and> page r = 2 \<and> page_size r = 2 \<and> items r \<noteq> []) \<and>
   list_gear demo_db None None (Some ''price_asc'') 5 2 =
     list_gear demo_db None None (Some ''price_asc'') 2 2 \<and>
   (\<exists>r. admin_list_gear demo_db None None (Some ''rating_desc'') 5 2 = Inr r \<and>
        total r = 3 \<and> pages r = 2 \<and> page r = 2 \<and> page_size r = 2 \<and> items r \<noteq> [])"
proof -
  have rows: "filter (gear_where None (q_norm None)) (gear_items demo_db) = [shure, sony, motu]"
    by code_simp
  have lp: "max 1 \<lceil>real_of_int (int (length [shure, sony, motu])) / real_of_int 2\<rceil> = 2"
    by simp
  have h: "(1::int) \<le> 5" "(1::int) \<le> 2" by simp_all
  note t = gear_listing_pagination [OF h, where category = None and q = None and d = demo_db, unfolded rows lp]
  have a: "list_gear demo_db None None (Some ''rating_desc'') 5 2 = Inl OperationalError"
    using t [where srt = "Some ''rating_desc''", THEN conjunct2, THEN conjunct2, THEN conjunct2,
        THEN conjunct2]
    by simp
  have ne: "Some ''price_asc'' \<noteq> Some ''rating_desc''" by simp
  have b: "\<exists>r. list_gear demo_db None None (Some ''price_asc'') 5 2 = Inr r \<and>
        total r = 3 \<and> pages r = 2 \<and> page r = 2 \<and> page_size r = 2 \<and> items r \<noteq> []"
    using t [where srt = "Some ''price_asc''", THEN conjunct2, THEN conjunct2, THEN conjunct1, rule_format, OF ne]
    by auto
  have c: "list_gear demo_db None None (Some ''price_asc'') 5 2 =
     list_gear demo_db None None (Some ''price_asc'') 2 2"
    using t [where srt = "Some ''price_asc''", THEN conjunct2, THEN conjunct2, THEN conjunct2, THEN conjunct1]
    by simp
  have e: "\<exists>r. admin_list_gear demo_db None None (Some ''rating_desc'') 5 2 = Inr r \<and>
        total r = 3 \<and> pages r = 2 \<and> page r = 2 \<and> page_size r = 2 \<and> items r \<noteq> []"
    using t [where srt = "Some ''rating_desc''", THEN conjunct1]
    by auto
  from a b c e show ?thesis by blast
qed

section \<open>Sorting\<close>

lemma total_preorderI:
  assumes "\<And>a b. t a b \<or> t b a" and "\<And>a b c. t a b \<Longrightarrow> t b c \<Longrightarrow> t a c"
  shows "total_preorder t"
  unfolding total_preorder_def using assms by blast

lemma total_preorder_total: "total_preorder t \<Longrightarrow> t a b \<or> t b a"
  unfolding total_preorder_def by blast

lemma total_preorder_trans: "total_preorder t \<Longrightarrow> t a b \<Longrightarrow> t b c \<Longrightarrow> t a c"
  unfolding total_preorder_def by blast

lemma term_le_plain:
  assumes "NULLS_LAST \<notin> set (modifiers t)" and "NULLS_FIRST \<notin> set (modifiers t)"
  shows "term_le t a b = (if DESC \<in> set (modifiers t) then precedes t b a else precedes t a b)"
  using assms by (simp add: term_le_def)

lemma term_le_asc_col [simp]: "term_le (asc (col k)) = (\<lambda>a b. k a \<le> k b)"
  by (intro ext) (simp add: term_le_plain, simp add: asc_def col_def)

lemma term_le_desc_col [simp]: "term_le (desc (col k)) = (\<lambda>a b. k b \<le> k a)"
  by (intro ext) (simp add: term_le_plain, simp add: desc_def col_def)

lemma term_le_desc_nullable [simp]: "term_le (desc (nullable k)) = (\<lambda>a b. k b \<le> k a)"
  by (intro ext) (simp add: term_le_plain, simp add: desc_def nullable_def)

lemma total_preorder_key: "total_preorder (\<lambda>a b. k a \<le> (k b :: 'k::linorder))"
proof (rule total_preorderI)
  show "k a \<le> k b \<or> k b \<le> k a" for a b by (rule linear)
  show "k a \<le> k b \<Longrightarrow> k b \<le> k c \<Longrightarrow> k a \<le> k c" for a b c by (rule order_trans)
qed

lemma total_preorder_key_rev: "total_preorder (\<lambda>a b. k b \<le> (k a :: 'k::linorder))"
proof (rule total_preorderI)
  show "k b \<le> k a \<or> k a \<le> k b" for a b by (rule linear)
  show "k b \<le> k a \<Longrightarrow> k c \<le> k b \<Longrightarrow> k c \<le> k a" for a b c by (rule order_trans)
qed

lemma total_preorder_lex_le:
  "(\<forall>t \<in> set ts. total_preorder t) \<Longrightarrow> total_preorder (lex_le ts)"
proof (induction ts)
  case Nil
  show ?case by (rule total_preorderI) simp_all
next
  case (Cons t ts)
  then have t: "total_preorder t" and r: "total_preorder (lex_le ts)" by simp_all
  note tt = total_preorder_total [OF t] and tr = total_preorder_trans [OF t]
  note rt = total_preorder_total [OF r] and rr = total_preorder_trans [OF r]
  show ?case
  proof (rule total_preorderI)
    fix a b
    show "lex_le (t # ts) a b \<or> lex_le (t # ts) b a"
      using tt [of a b] rt [of a b] by auto
  next
    fix a b c
    assume ab: "lex_le (t # ts) a b" and bc: "lex_le (t # ts) b c"
    show "lex_le (t # ts) a c"
    proof (cases "t c a")
      case False
      then show ?thesis by simp
    next
      case ca: True
      have bc0: "t b c" using bc tt [of b c] by auto
      from bc0 ca have ba: "t b a" by (rule tr)
      with ab have ab': "t a b" "lex_le ts a b" by auto
      from ca ab'(1) have "t c b" by (rule tr)
      with bc have bc': "t b c" "lex_le ts b c" by auto
      from ab'(1) bc'(1) have "t a c" by (rule tr)
      moreover from ab'(2) bc'(2) have "lex_le ts a c" by (rule rr)
      ultimately show ?thesis by simp
    qed
  qed
qed

lemma set_insort_le: "set (insort_le le x xs) = insert x (set xs)"
  by (induction xs) auto

lemma sorted_insort_le:
  assumes "total_preorder le" and "sorted_wrt le xs"
  shows "sorted_wrt le (insort_le le x xs)"
  using assms(2)
proof (induction xs)
  case Nil
  then show ?case by simp
next
  case (Cons y ys)
  show ?case
  proof (cases "le x y")
    case True
    then have "\<forall>z \<in> set ys. le x z"
      using Cons.prems total_preorder_trans [OF assms(1), of x y] by auto
    then show ?thesis using True Cons.prems by simp
  next
    case False
    then have "le y x" using total_preorder_total [OF assms(1), of x y] by simp
    then show ?thesis using False Cons by (simp add: set_insort_le)
  qed
qed

lemma sorted_foldr_insort_le:
  assumes "total_preorder le"
  shows "sorted_wrt le (foldr (insort_le le) rows [])"
  by (induction rows) (simp_all add: sorted_insort_le [OF assms])

lemma sorted_wrt_page: "sorted_wrt P xs \<Longrightarrow> sorted_wrt P (take k (drop j xs))"
  by (simp add: sorted_wrt_take sorted_wrt_drop)

lemma sorted_wrt_paginate:
  "sorted_wrt P query \<Longrightarrow> sorted_wrt P (items (paginate query n pg sz))"
  by (simp add: paginate_def Let_def sorted_wrt_page)

lemma admin_rating_le:
  "lex_le [\<lambda>a b. g_rating b \<le> g_rating a, \<lambda>a b. sql_lower (g_name a) \<le> sql_lower (g_name b)] a b \<Longrightarrow>
   rating_before (g_rating a) (g_rating b) \<or>
   (g_rating a = g_rating b \<and> sql_lower (g_name a) \<le> sql_lower (g_name b))"
  by (cases "g_rating a"; cases "g_rating b") auto

text \<open>
  Claim C8. The admin listing sorted by \<open>rating_desc\<close> does what the claim says: every
  page is in rating descending order with the items without a rating after all the rated
  ones, and among equal ratings in ascending order of the lower-cased name. The public
  listing returns no items at all for \<open>rating_desc\<close>: its ordering term is
  \<open>rating NULLS LAST DESC\<close>, which SQLite does not parse, and the handler raises
  \<open>OperationalError\<close>.
\<close>

theorem rating_desc_order:
  fixes d :: "('f::linorder) db"
  shows "(\<exists>r. admin_list_gear d category q (Some ''rating_desc'') pg sz = Inr r \<and>
              sorted_wrt (\<lambda>a b. rating_before (g_rating a) (g_rating b) \<or>
                                 (g_rating a = g_rating b \<and>
                                  sql_lower (g_name a) \<le> sql_lower (g_name b)))
                (items r)) \<and>
         list_gear d category q (Some ''rating_desc'') pg sz = Inl OperationalError"
proof
  let ?rows = "filter (gear_where category (q_norm q)) (gear_items d)"
  let ?le = "lex_le [\<lambda>a b. g_rating b \<le> g_rating a,
                     \<lambda>a b :: 'f GearItem. sql_lower (g_name a) \<le> sql_lower (g_name b)]"
  let ?query = "foldr (insort_le ?le) ?rows []"
  have s: "admin_gear_sorting (Some ''rating_desc'') ?rows = Inr ?query"
    by (simp add: admin_gear_sorting_def order_by_def)
  have "total_preorder ?le"
    by (rule total_preorder_lex_le) (simp add: total_preorder_key total_preorder_key_rev)
  then have "sorted_wrt ?le ?query" by (rule sorted_foldr_insort_le)
  then have "sorted_wrt ?le (items (paginate ?query (int (length ?rows)) pg sz))"
    by (rule sorted_wrt_paginate)
  then have "sorted_wrt (\<lambda>a b. rating_before (g_rating a) (g_rating b) \<or>
                                 (g_rating a = g_rating b \<and>
                                  sql_lower (g_name a) \<le> sql_lower (g_name b)))
                (items (paginate ?query (int (length ?rows)) pg sz))"
    by (rule sorted_wrt_mono_rel [rotated]) (rule admin_rating_le)
  then show "\<exists>r. admin_list_gear d category q (Some ''rating_desc'') pg sz = Inr r \<and>
              sorted_wrt (\<lambda>a b. rating_before (g_rating a) (g_rating b) \<or>
                                 (g_rating a = g_rating b \<and>
                                  sql_lower (g_name a) \<le> sql_lower (g_name b)))
                (items r)"
    by (simp add: admin_list_gear_def Let_def s)
next
  show "list_gear d category q (Some ''rating_desc'') pg sz = Inl OperationalError"
    by (simp add: list_gear_def Let_def gear_sorting_rating_desc)
qed

theorem rating_desc_order_witness:
  "admin_list_gear demo_db None None (Some ''rating_desc'') 1 12 =
     Inr \<lparr>items = [motu, shure, sony], total = 3, page = 1, page_size = 12, pages = 1\<rparr> \<and>
   sorted_wrt (\<lambda>a b. rating_before (g_rating a) (g_rating b) \<or>
                      (g_rating a = g_rating b \<and> sql_lower (g_name a) \<le> sql_lower (g_name b)))
     [motu, shure, sony] \<and>
   list_gear demo_db None None (Some ''rating_desc'') 1 12 = Inl OperationalError"
proof -
  have a: "admin_list_gear demo_db None None (Some ''rating_desc'') 1 12 =
     Inr \<lparr>items = [motu, shure, sony], total = 3, page = 1, page_size = 12, pages = 1\<rparr>"
    by code_simp
  show ?thesis
    using rating_desc_order [of demo_db None None 1 12] unfolding a by simp
qed

section \<open>The cart\<close>

lemma scalar_one_or_none_unique:
  assumes "distinct (map k xs)" and "\<And>x. P x \<Longrightarrow> k x = v"
  shows "scalar_one_or_none (filter P xs) = Inr (find P xs)"
  using assms(1)
proof (induction xs)
  case Nil
  then show ?case by simp
next
  case (Cons x xs)
  show ?case
  proof (cases "P x")
    case True
    then have "k x = v" by (rule assms(2))
    then have "\<forall>y \<in> set xs. \<not> P y"
      using Cons.prems assms(2) by (auto simp: image_iff)
    then have "filter P xs = []" by (simp add: filter_empty_conv)
    with True show ?thesis by simp
  next
    case False
    with Cons show ?thesis by simp
  qed
qed

lemma find_user_unique:
  "distinct (map u_username (users d)) \<Longrightarrow>
   find_user d uname = Inr (find (\<lambda>u. u_username u = uname) (users d))"
  unfolding find_user_def by (rule scalar_one_or_none_unique [where k = u_username]) simp_all

lemma find_gear_unique:
  "distinct (map g_id (gear_items d)) \<Longrightarrow>
   find_gear d i = Inr (find (\<lambda>g. g_id g = i) (gear_items d))"
  unfolding find_gear_def by (rule scalar_one_or_none_unique [where k = g_id]) simp_all

lemma find_cart_item_unique:
  "distinct (map c_id (cart_items d)) \<Longrightarrow>
   find_cart_item d i uid' = Inr (find (\<lambda>c. c_id c = i \<and> c_user_id c = uid') (cart_items d))"
  unfolding find_cart_item_def by (rule scalar_one_or_none_unique [where k = c_id]) simp_all

lemma find_key_distinct:
  "distinct (map k xs) \<Longrightarrow> x \<in> set xs \<Longrightarrow> find (\<lambda>y. k y = k x) xs = Some x"
  by (induction xs) (auto simp: image_iff)

lemma cart_loop_eq:
  assumes "distinct (map g_id (gear_items d))"
  shows "cart_loop fa d cs acc tot =
           Inr \<lparr>resp_items = acc @ List.map_filter (cart_entry d) cs,
                resp_total = foldl (add_line fa) tot (List.map_filter (cart_entry d) cs)\<rparr>"
proof (induction cs arbitrary: acc tot)
  case Nil
  then show ?case by simp
next
  case (Cons c cs)
  show ?case
  proof (cases "find (\<lambda>g. g_id g = c_gear_item_id c) (gear_items d)")
    case None
    then show ?thesis
      by (simp add: find_gear_unique [OF assms] Cons.IH cart_entry_def)
  next
    case (Some g)
    then show ?thesis
      by (simp add: find_gear_unique [OF assms] Cons.IH cart_entry_def add_line_def)
  qed
qed

lemma fold_max_ge: "x \<in> set ids \<Longrightarrow> x \<le> fold max ids (a::int)"
proof (induction ids arbitrary: a)
  case Nil
  then show ?case by simp
next
  case (Cons y ys)
  have mono: "b \<le> fold max ys b" for b :: int
    by (induction ys arbitrary: b) (auto intro: order_trans [OF max.cobounded2])
  show ?case
  proof (cases "x = y")
    case True
    then show ?thesis using mono [of "max y a"] by simp
  next
    case False
    with Cons show ?thesis by simp
  qed
qed

lemma next_id_fresh: "next_id ids \<notin> set ids"
proof
  assume "next_id ids \<in> set ids"
  then have "next_id ids \<le> fold max ids 0" by (rule fold_max_ge)
  then show False by (simp add: next_id_def)
qed

lemma get_cart_users_gear:
  assumes "distinct (map u_username (users d))" and "distinct (map g_id (gear_items d))"
    and "u \<in> set (users d)" and "u_username u = username current_user"
  shows "get_cart fa d current_user =
           Inr \<lparr>resp_items = List.map_filter (cart_entry d) (filter (\<lambda>c. c_user_id c = u_id u) (cart_items d)),
                resp_total = foldl (add_line fa) (f_zero fa)
                  (List.map_filter (cart_entry d) (filter (\<lambda>c. c_user_id c = u_id u) (cart_items d)))\<rparr>"
proof -
  have "find (\<lambda>y. u_username y = username current_user) (users d) = Some u"
    using find_key_distinct [OF assms(1,3)] assms(4) by simp
  then show ?thesis
    by (simp add: get_cart_def find_user_unique [OF assms(1)] cart_loop_eq [OF assms(2)])
qed

lemma cart_entry_None: "cart_entry d c = None \<longleftrightarrow> c_gear_item_id c \<notin> g_id ` set (gear_items d)"
  by (auto simp: cart_entry_def find_None_iff image_iff)

lemma cart_entry_Some:
  assumes "cart_entry d c = Some r"
  shows "r_id r = c_id c" and "r_gear_item_id r = c_gear_item_id c" and "r_quantity r = c_quantity c"
    and "r_gear_item r \<in> set (gear_items d)" and "g_id (r_gear_item r) = c_gear_item_id c"
proof -
  from assms obtain g where g: "find (\<lambda>g. g_id g = c_gear_item_id c) (gear_items d) = Some g"
    and r: "r = \<lparr>r_id = c_id c, r_gear_item_id = c_gear_item_id c, r_quantity = c_quantity c,
                 r_gear_item = g\<rparr>"
    by (auto simp: cart_entry_def)
  from g have "g \<in> set (gear_items d)" and "g_id g = c_gear_item_id c"
    by (auto simp: find_Some_iff)
  with r show "r_id r = c_id c" and "r_gear_item_id r = c_gear_item_id c"
    and "r_quantity r = c_quantity c" and "r_gear_item r \<in> set (gear_items d)"
    and "g_id (r_gear_item r) = c_gear_item_id c"
    by simp_all
qed

lemma map_filter_cart_entry:
  fixes d cs
  defines "its \<equiv> List.map_filter (cart_entry d) cs"
  defines "resolved \<equiv> filter (\<lambda>c. c_gear_item_id c \<in> g_id ` set (gear_items d)) cs"
  shows "map r_id its = map c_id resolved \<and>
         map r_gear_item_id its = map c_gear_item_id resolved \<and>
         map r_quantity its = map c_quantity resolved \<and>
         (\<forall>r \<in> set its. r_gear_item r \<in> set (gear_items d) \<and>
                          g_id (r_gear_item r) = r_gear_item_id r)"
  unfolding its_def resolved_def
proof (induction cs)
  case Nil
  show ?case by simp
next
  case (Cons c cs)
  show ?case
  proof (cases "cart_entry d c")
    case None
    then show ?thesis using Cons cart_entry_None [of d c] by simp
  next
    case (Some r)
    then have "c_gear_item_id c \<in> g_id ` set (gear_items d)"
      using cart_entry_None [of d c] by simp
    then show ?thesis using Cons Some cart_entry_Some [OF Some] by simp
  qed
qed

text \<open>
  Claim C6. For an identity whose user row exists, \<open>get_cart\<close> returns a cart and never
  an error. Its items are, in order, the caller's cart rows whose gear item exists, each
  with the row's id, gear item id and quantity and with that gear item; a row whose gear
  item id does not resolve is in neither the list nor the total. The total is the sum
  over the returned items of price times quantity as the program computes it: started at
  \<open>0.0\<close> and taken item by item in list order, each step one multiplication and one
  addition of the float arithmetic. A caller without cart rows gets \<open>items = []\<close> and
  \<open>total = 0.0\<close>.
\<close>

theorem get_cart_total:
  fixes fa :: "'f float_arith" and d :: "'f db"
  assumes "db_ok d" and "u \<in> set (users d)" and "u_username u = username current_user"
  defines "mine \<equiv> filter (\<lambda>c. c_user_id c = u_id u) (cart_items d)"
  defines "resolved \<equiv> filter (\<lambda>c. c_gear_item_id c \<in> g_id ` set (gear_items d)) mine"
  shows "\<exists>resp. get_cart fa d current_user = Inr resp \<and>
           map r_id (resp_items resp) = map c_id resolved \<and>
           map r_gear_item_id (resp_items resp) = map c_gear_item_id resolved \<and>
           map r_quantity (resp_items resp) = map c_quantity resolved \<and>
           (\<forall>r \<in> set (resp_items resp).
              r_gear_item r \<in> set (gear_items d) \<and> g_id (r_gear_item r) = r_gear_item_id r) \<and>
           resp_total resp =
             foldl (\<lambda>tot r. f_add fa tot
                      (f_mul fa (g_price (r_gear_item r)) (f_of_int fa (r_quantity r))))
               (f_zero fa) (resp_items resp) \<and>
           (mine = [] \<longrightarrow> resp = \<lparr>resp_items = [], resp_total = f_zero fa\<rparr>)"
proof -
  let ?its = "List.map_filter (cart_entry d) mine"
  have g: "get_cart fa d current_user =
      Inr \<lparr>resp_items = ?its, resp_total = foldl (add_line fa) (f_zero fa) ?its\<rparr>"
    unfolding mine_def using assms(1)
    by (intro get_cart_users_gear assms(2,3)) (simp_all add: db_ok_def)
  have l: "add_line fa = (\<lambda>tot r. f_add fa tot
                      (f_mul fa (g_price (r_gear_item r)) (f_of_int fa (r_quantity r))))"
    by (intro ext) (simp add: add_line_def)
  show ?thesis
    unfolding g resolved_def
    using map_filter_cart_entry [of d mine]
    by (auto simp: l)
qed

lemma db_ok_demo: "db_ok demo_db"
  by (simp add: db_ok_def demo_db_def shure_def sony_def motu_def)

theorem get_cart_total_witness:
  "get_cart demo_arith demo_db user1 =
     Inr \<lparr>resp_items = [\<lparr>r_id = 1, r_gear_item_id = 1, r_quantity = 2, r_gear_item = shure\<rparr>],
          resp_total = 858\<rparr>"
proof -
  let ?u = "\<lparr>u_id = 2, u_username = ''user1'', u_hashed_password = ''h:password1'', u_is_admin = False\<rparr>"
  have u: "?u \<in> set (users demo_db)" "u_username ?u = username user1"
    by (simp_all add: demo_db_def user1_def)
  have r: "filter (\<lambda>c. c_gear_item_id c \<in> g_id ` set (gear_items demo_db))
             (filter (\<lambda>c. c_user_id c = u_id ?u) (cart_items demo_db)) =
           [\<lparr>c_id = 1, c_user_id = 2, c_gear_item_id = 1, c_quantity = 2\<rparr>]"
    by (simp add: demo_db_def shure_def sony_def motu_def)
  from get_cart_total [OF db_ok_demo u, of demo_arith] obtain resp where
    g: "get_cart demo_arith demo_db user1 = Inr resp" and
    i: "map r_id (resp_items resp) = [1]" "map r_gear_item_id (resp_items resp) = [1]"
       "map r_quantity (resp_items resp) = [2]" and
    m: "\<forall>r \<in> set (resp_items resp).
              r_gear_item r \<in> set (gear_items demo_db) \<and> g_id (r_gear_item r) = r_gear_item_id r" and
    t: "resp_total resp =
             foldl (\<lambda>tot r. f_add demo_arith tot
                      (f_mul demo_arith (g_price (r_gear_item r)) (f_of_int demo_arith (r_quantity r))))
               (f_zero demo_arith) (resp_items resp)"
    unfolding r by auto
  from i obtain x where x: "resp_items resp = [x]" "r_id x = 1" "r_gear_item_id x = 1" "r_quantity x = 2"
    by (cases "resp_items resp") auto
  with m have "r_gear_item x \<in> set (gear_items demo_db)" "g_id (r_gear_item x) = 1" by auto
  then have gx: "r_gear_item x = shure"
    by (auto simp: demo_db_def shure_def sony_def motu_def)
  have "x = \<lparr>r_id = 1, r_gear_item_id = 1, r_quantity = 2, r_gear_item = shure\<rparr>"
    using x gx by (cases x) simp
  moreover have "resp_total resp = 858" using t x gx by (simp add: shure_def demo_arith_def)
  ultimately have "resp = \<lparr>resp_items = [\<lparr>r_id = 1, r_gear_item_id = 1, r_quantity = 2, r_gear_item = shure\<rparr>],
          resp_total = 858\<rparr>"
    using x(1) by (cases resp) simp
  with g show ?thesis by simp
qed

lemma add_to_cart_new:
  fixes q :: int
  assumes du: "distinct (map u_username (users d))" and dg: "distinct (map g_id (gear_items d))"
    and u: "u \<in> set (users d)" "u_username u = username cu"
    and g: "gid \<in> g_id ` set (gear_items d)"
    and none: "filter (\<lambda>c. c_user_id c = u_id u \<and> c_gear_item_id c = gid) (cart_items d) = []"
  defines "d' \<equiv> d\<lparr>cart_items := cart_items d @
                     [\<lparr>c_id = next_id (map c_id (cart_items d)), c_user_id = u_id u,
                       c_gear_item_id = gid, c_quantity = q\<rparr>]\<rparr>"
  shows "add_to_cart fa d \<lparr>add_gear_item_id = gid, add_quantity = q\<rparr> cu =
           (if sqlite_integer q then (get_cart fa d' cu, d') else (Inl OverflowError, d))"
proof -
  have fu: "find_user d (username cu) = Inr (Some u)"
    using find_key_distinct [OF du u(1)] u(2) by (simp add: find_user_unique [OF du])
  from g obtain x where "x \<in> set (gear_items d)" "g_id x = gid" by auto
  then have fg: "find_gear d gid = Inr (Some x)"
    using find_key_distinct [OF dg, of x] by (simp add: find_gear_unique [OF dg])
  show ?thesis
    by (simp add: add_to_cart_def fu fg none d'_def Let_def insert_cart_item_def)
qed

lemma add_to_cart_existing:
  fixes q :: int
  assumes du: "distinct (map u_username (users d))" and dg: "distinct (map g_id (gear_items d))"
    and u: "u \<in> set (users d)" "u_username u = username cu"
    and g: "gid \<in> g_id ` set (gear_items d)"
    and one: "filter (\<lambda>c. c_user_id c = u_id u \<and> c_gear_item_id c = gid) (cart_items d) = [ex]"
  defines "d' \<equiv> d\<lparr>cart_items :=
                     map (\<lambda>c. if c_id c = c_id ex then c\<lparr>c_quantity := c_quantity ex + q\<rparr> else c)
                       (cart_items d)\<rparr>"
  shows "add_to_cart fa d \<lparr>add_gear_item_id = gid, add_quantity = q\<rparr> cu =
           (if sqlite_integer (c_quantity ex + q) then (get_cart fa d' cu, d')
            else (Inl OverflowError, d))"
proof -
  have fu: "find_user d (username cu) = Inr (Some u)"
    using find_key_distinct [OF du u(1)] u(2) by (simp add: find_user_unique [OF du])
  from g obtain x where "x \<in> set (gear_items d)" "g_id x = gid" by auto
  then have fg: "find_gear d gid = Inr (Some x)"
    using find_key_distinct [OF dg, of x] by (simp add: find_gear_unique [OF dg])
  show ?thesis
    by (simp add: add_to_cart_def fu fg one d'_def Let_def set_quantity_def)
qed

text \<open>
  Claim C2 speaks of integer quantities without a bound. The quantity column holds a
  signed 64-bit integer: a first call with \<open>2^63 - 1\<close> stores it, and a second call with
  1 computes \<open>2^63\<close>, which the write refuses with \<open>OverflowError\<close>; the row keeps the
  first quantity.
\<close>

theorem add_to_cart_overflow_counterexample:
  "snd (add_to_cart demo_arith demo_db
          \<lparr>add_gear_item_id = 3, add_quantity = 9223372036854775807\<rparr> user1) =
     demo_db\<lparr>cart_items := cart_items demo_db @
       [\<lparr>c_id = 4, c_user_id = 2, c_gear_item_id = 3, c_quantity = 9223372036854775807\<rparr>]\<rparr> \<and>
   add_to_cart demo_arith
     (demo_db\<lparr>cart_items := cart_items demo_db @
       [\<lparr>c_id = 4, c_user_id = 2, c_gear_item_id = 3, c_quantity = 9223372036854775807\<rparr>]\<rparr>)
     \<lparr>add_gear_item_id = 3, add_quantity = 1\<rparr> user1 =
     (Inl OverflowError,
      demo_db\<lparr>cart_items := cart_items demo_db @
       [\<lparr>c_id = 4, c_user_id = 2, c_gear_item_id = 3, c_quantity = 9223372036854775807\<rparr>]\<rparr>)"
proof -
  let ?u = "\<lparr>u_id = 2, u_username = ''user1'', u_hashed_password = ''h:password1'', u_is_admin = False\<rparr>"
  let ?row = "\<lparr>c_id = 4, c_user_id = 2, c_gear_item_id = 3, c_quantity = 9223372036854775807\<rparr>"
  let ?d1 = "demo_db\<lparr>cart_items := cart_items demo_db @ [?row]\<rparr>"
  have du: "distinct (map u_username (users demo_db))" "distinct (map g_id (gear_items demo_db))"
    using db_ok_demo by (simp_all add: db_ok_def)
  have u: "?u \<in> set (users demo_db)" "u_username ?u = username user1"
    by (simp_all add: demo_db_def user1_def)
  have g: "3 \<in> g_id ` set (gear_items demo_db)"
    by (simp add: demo_db_def shure_def sony_def motu_def)
  have n: "filter (\<lambda>c. c_user_id c = u_id ?u \<and> c_gear_item_id c = 3) (cart_items demo_db) = []"
    by (simp add: demo_db_def)
  have i: "next_id (map c_id (cart_items demo_db)) = 4"
    by (simp add: demo_db_def next_id_def)
  have a: "snd (add_to_cart demo_arith demo_db
          \<lparr>add_gear_item_id = 3, add_quantity = 9223372036854775807\<rparr> user1) = ?d1"
    using add_to_cart_new [OF du u g n, of demo_arith 9223372036854775807]
    by (simp add: i sqlite_integer_def)
  have one: "filter (\<lambda>c. c_user_id c = u_id ?u \<and> c_gear_item_id c = 3) (cart_items ?d1) = [?row]"
    using n by simp
  have b: "add_to_cart demo_arith ?d1 \<lparr>add_gear_item_id = 3, add_quantity = 1\<rparr> user1 =
      (Inl OverflowError, ?d1)"
    using add_to_cart_existing [of ?d1 ?u user1 3 ?row demo_arith 1] du u g one
    by (simp add: sqlite_integer_def)
  from a b show ?thesis by simp
qed

text \<open>
  Claim C2, amended. The caller's user row and the gear item exist, the cart holds no row
  for that pair, and \<open>q1\<close> and \<open>q1 + q2\<close> are within the signed 64-bit range of the
  quantity column. Then both \<open>add_to_cart\<close> calls succeed, and after the second the store
  is the old one with a single new cart row for the pair, whose quantity is \<open>q1 + q2\<close>,
  whatever the signs: nothing is floored, validated or deleted.
\<close>

theorem add_to_cart_twice:
  fixes q1 q2 :: int and fa :: "'f float_arith" and d :: "'f db"
  assumes ok: "db_ok d" and u: "u \<in> set (users d)" "u_username u = username cu"
    and g: "gid \<in> g_id ` set (gear_items d)"
    and none: "\<forall>c \<in> set (cart_items d). \<not> (c_user_id c = u_id u \<and> c_gear_item_id c = gid)"
    and r1: "- (2 ^ 63) \<le> q1" "q1 < 2 ^ 63"
    and r2: "- (2 ^ 63) \<le> q1 + q2" "q1 + q2 < 2 ^ 63"
  defines "first \<equiv> add_to_cart fa d \<lparr>add_gear_item_id = gid, add_quantity = q1\<rparr> cu"
  defines "second \<equiv> add_to_cart fa (snd first) \<lparr>add_gear_item_id = gid, add_quantity = q2\<rparr> cu"
  defines "row \<equiv> \<lparr>c_id = next_id (map c_id (cart_items d)), c_user_id = u_id u,
                   c_gear_item_id = gid, c_quantity = q1 + q2\<rparr>"
  shows "(\<exists>r1. fst first = Inr r1) \<and> (\<exists>r2. fst second = Inr r2) \<and>
         filter (\<lambda>c. c_user_id c = u_id u \<and> c_gear_item_id c = gid) (cart_items (snd second)) = [row] \<and>
         snd second = d\<lparr>cart_items := cart_items d @ [row]\<rparr>"
proof -
  have du: "distinct (map u_username (users d))" and dg: "distinct (map g_id (gear_items d))"
    using ok by (simp_all add: db_ok_def)
  have i1: "sqlite_integer q1" and i2: "sqlite_integer (q1 + q2)"
    using r1 r2 by (simp_all add: sqlite_integer_def)
  let ?new = "\<lparr>c_id = next_id (map c_id (cart_items d)), c_user_id = u_id u,
               c_gear_item_id = gid, c_quantity = q1\<rparr>"
  let ?d1 = "d\<lparr>cart_items := cart_items d @ [?new]\<rparr>"
  let ?d2 = "d\<lparr>cart_items := cart_items d @ [row]\<rparr>"
  have empty: "filter (\<lambda>c. c_user_id c = u_id u \<and> c_gear_item_id c = gid) (cart_items d) = []"
    using none by (simp add: filter_empty_conv)
  have first: "first = (get_cart fa ?d1 cu, ?d1)"
    unfolding first_def using add_to_cart_new [OF du dg u g empty, of fa q1] i1 by simp
  have one: "filter (\<lambda>c. c_user_id c = u_id u \<and> c_gear_item_id c = gid) (cart_items ?d1) = [?new]"
    using empty by simp
  have fresh: "\<forall>c \<in> set (cart_items d). c_id c \<noteq> next_id (map c_id (cart_items d))"
  proof
    fix c assume "c \<in> set (cart_items d)"
    then have "c_id c \<in> set (map c_id (cart_items d))" by simp
    then show "c_id c \<noteq> next_id (map c_id (cart_items d))"
      using next_id_fresh [of "map c_id (cart_items d)"] by metis
  qed
  have keep: "map (\<lambda>c. if c_id c = next_id (map c_id (cart_items d))
                      then c\<lparr>c_quantity := v\<rparr> else c) (cart_items d) = cart_items d" for v
    using fresh by (intro map_idI) simp
  have upd: "map (\<lambda>c. if c_id c = c_id ?new then c\<lparr>c_quantity := c_quantity ?new + q2\<rparr> else c)
               (cart_items ?d1) = cart_items d @ [row]"
    by (simp add: row_def keep)
  have p1: "distinct (map u_username (users ?d1))" using du by simp
  have p2: "distinct (map g_id (gear_items ?d1))" using dg by simp
  have p3: "u \<in> set (users ?d1)" using u(1) by simp
  have p4: "gid \<in> g_id ` set (gear_items ?d1)" using g by simp
  have "second = (get_cart fa (?d1\<lparr>cart_items := cart_items d @ [row]\<rparr>) cu,
                  ?d1\<lparr>cart_items := cart_items d @ [row]\<rparr>)"
    unfolding second_def first snd_conv
    using add_to_cart_existing [OF p1 p2 p3 u(2) p4 one, of fa q2] i2
    unfolding upd by simp
  then have second: "second = (get_cart fa ?d2 cu, ?d2)"
    by simp
  have "\<exists>r1. get_cart fa ?d1 cu = Inr r1"
    using get_cart_users_gear [of ?d1 u cu fa] du dg u by simp
  moreover have "\<exists>r2. get_cart fa ?d2 cu = Inr r2"
    using get_cart_users_gear [of ?d2 u cu fa] du dg u by simp
  moreover have "filter (\<lambda>c. c_user_id c = u_id u \<and> c_gear_item_id c = gid) (cart_items ?d2) = [row]"
    using empty by (simp add: row_def)
  ultimately show ?thesis
    unfolding first second by simp
qed

theorem add_to_cart_twice_witness:
  "snd (add_to_cart demo_arith
          (snd (add_to_cart demo_arith demo_db \<lparr>add_gear_item_id = 3, add_quantity = 2\<rparr> user1))
          \<lparr>add_gear_item_id = 3, add_quantity = - 5\<rparr> user1) =
   demo_db\<lparr>cart_items := cart_items demo_db @
     [\<lparr>c_id = 4, c_user_id = 2, c_gear_item_id = 3, c_quantity = - 3\<rparr>]\<rparr>"
proof -
  let ?u = "\<lparr>u_id = 2, u_username = ''user1'', u_hashed_password = ''h:password1'', u_is_admin = False\<rparr>"
  have u: "?u \<in> set (users demo_db)" "u_username ?u = username user1"
    by (simp_all add: demo_db_def user1_def)
  have g: "3 \<in> g_id ` set (gear_items demo_db)"
    by (simp add: demo_db_def shure_def sony_def motu_def)
  have n: "\<forall>c \<in> set (cart_items demo_db). \<not> (c_user_id c = u_id ?u \<and> c_gear_item_id c = 3)"
    by (simp add: demo_db_def)
  have i: "next_id (map c_id (cart_items demo_db)) = 4"
    by (simp add: demo_db_def next_id_def)
  have r: "- (2 ^ 63) \<le> (2::int)" "(2::int) < 2 ^ 63" "- (2 ^ 63) \<le> (2::int) + (- 5)"
    "(2::int) + (- 5) < 2 ^ 63"
    by simp_all
  show ?thesis
    using add_to_cart_twice [OF db_ok_demo u g n r, of demo_arith] by (simp add: i)
qed

lemma find_cart_item_own:
  assumes "distinct (map c_id (cart_items d))" and "c \<in> set (cart_items d)"
  shows "find_cart_item d (c_id c) uid' = Inr (if c_user_id c = uid' then Some c else None)"
proof -
  have same: "x = c" if "x \<in> set (cart_items d)" "c_id x = c_id c" for x
    using assms that by (meson distinct_map inj_onD)
  show ?thesis
  proof (cases "c_user_id c = uid'")
    case True
    have "find (\<lambda>x. c_id x = c_id c \<and> c_user_id x = uid') (cart_items d) =
          find (\<lambda>x. c_id x = c_id c) (cart_items d)"
      by (rule find_cong) (use same True in auto)
    then show ?thesis
      using True find_key_distinct [OF assms] by (simp add: find_cart_item_unique [OF assms(1)])
  next
    case False
    have "find (\<lambda>x. c_id x = c_id c \<and> c_user_id x = uid') (cart_items d) = None"
      using same False by (auto simp: find_None_iff)
    then show ?thesis
      using False by (simp add: find_cart_item_unique [OF assms(1)])
  qed
qed




lemma cart_entry_cart_items_update [simp]: "cart_entry (d\<lparr>cart_items := t\<rparr>) = cart_entry d"
  by (rule ext) (simp add: cart_entry_def)

lemma map_filter_cart_entry_filter_id:
  "List.map_filter (cart_entry d) (filter (\<lambda>x. c_id x \<noteq> i) cs) =
   filter (\<lambda>r. r_id r \<noteq> i) (List.map_filter (cart_entry d) cs)"
proof (induction cs)
  case Nil
  show ?case by simp
next
  case (Cons x cs)
  show ?case
  proof (cases "cart_entry d x")
    case None
    then show ?thesis using Cons by simp
  next
    case (Some r)
    then show ?thesis using Cons cart_entry_Some(1) [OF Some] by simp
  qed
qed

lemma same_id_same_row:
  assumes "distinct (map c_id tbl)" and "c \<in> set tbl" and "x \<in> set tbl"
  shows "c_id x = c_id c \<longleftrightarrow> x = c"
  using assms by (meson distinct_map inj_onD)

lemma delete_cart_item_removeAll:
  assumes "distinct (map c_id tbl)" and "c \<in> set tbl"
  shows "delete_cart_item c tbl = removeAll c tbl"
proof -
  have "filter (\<lambda>x. c_id x \<noteq> c_id c) tbl = filter ((\<noteq>) c) tbl"
    by (rule filter_cong) (use same_id_same_row [OF assms] in auto)
  then show ?thesis by (simp add: delete_cart_item_def removeAll_filter_not_eq)
qed

lemma set_quantity_replace:
  assumes "distinct (map c_id tbl)" and "c \<in> set tbl"
  shows "set_quantity c v tbl =
           (if sqlite_integer v
            then Inr (map (\<lambda>x. if x = c then c\<lparr>c_quantity := v\<rparr> else x) tbl)
            else Inl OverflowError)"
proof -
  have "map (\<lambda>x. if c_id x = c_id c then x\<lparr>c_quantity := v\<rparr> else x) tbl =
        map (\<lambda>x. if x = c then c\<lparr>c_quantity := v\<rparr> else x) tbl"
    by (rule map_cong) (use same_id_same_row [OF assms] in auto)
  then show ?thesis by (simp add: set_quantity_def)
qed

lemma update_cart_item_own:
  assumes ok: "db_ok d" and u: "u \<in> set (users d)" "u_username u = username cu"
    and c: "c \<in> set (cart_items d)" "c_user_id c = u_id u"
  shows "update_cart_item fa d (c_id c) \<lparr>upd_quantity = q\<rparr> cu =
           (if q \<le> 0 then
              (get_cart fa (d\<lparr>cart_items := removeAll c (cart_items d)\<rparr>) cu,
               d\<lparr>cart_items := removeAll c (cart_items d)\<rparr>)
            else if sqlite_integer q then
              (get_cart fa
                 (d\<lparr>cart_items :=
                      map (\<lambda>x. if x = c then c\<lparr>c_quantity := q\<rparr> else x) (cart_items d)\<rparr>) cu,
               d\<lparr>cart_items :=
                    map (\<lambda>x. if x = c then c\<lparr>c_quantity := q\<rparr> else x) (cart_items d)\<rparr>)
            else (Inl OverflowError, d))"
proof -
  have du: "distinct (map u_username (users d))" and dc: "distinct (map c_id (cart_items d))"
    using ok by (simp_all add: db_ok_def)
  have fu: "find_user d (username cu) = Inr (Some u)"
    using find_key_distinct [OF du u(1)] u(2) by (simp add: find_user_unique [OF du])
  have fc: "find_cart_item d (c_id c) (u_id u) = Inr (Some c)"
    using c(2) by (simp add: find_cart_item_own [OF dc c(1)])
  show ?thesis
    by (simp add: update_cart_item_def fu fc Let_def delete_cart_item_removeAll [OF dc c(1)]
        set_quantity_replace [OF dc c(1)])
qed

text \<open>
  Claim C4 speaks of every quantity above 0. The quantity column holds a signed 64-bit
  integer: with \<open>2^63\<close> the write is refused with \<open>OverflowError\<close>, no cart is returned
  and the row keeps the quantity it had.
\<close>

theorem update_cart_item_overflow_counterexample:
  "update_cart_item demo_arith demo_db 1 \<lparr>upd_quantity = 9223372036854775808\<rparr> user1 =
     (Inl OverflowError, demo_db)"
proof -
  let ?u = "\<lparr>u_id = 2, u_username = ''user1'', u_hashed_password = ''h:password1'', u_is_admin = False\<rparr>"
  let ?c = "\<lparr>c_id = 1, c_user_id = 2, c_gear_item_id = 1, c_quantity = 2\<rparr>"
  have u: "?u \<in> set (users demo_db)" "u_username ?u = username user1"
    by (simp_all add: demo_db_def user1_def)
  have c: "?c \<in> set (cart_items demo_db)" "c_user_id ?c = u_id ?u"
    by (simp_all add: demo_db_def)
  show ?thesis
    using update_cart_item_own [OF db_ok_demo u c, of demo_arith 9223372036854775808]
    by (simp add: sqlite_integer_def)
qed

text \<open>
  Claim C4, amended. For a cart item of the caller's own, \<open>update_cart_item\<close> with a
  quantity of 0 or less deletes exactly that row, and the cart it returns is the previous
  cart without the item, its total being the sum of price times quantity over the items
  that remain, as the program computes it (from \<open>0.0\<close>, item by item, in the float
  arithmetic). With a quantity above 0 and within the signed 64-bit range of the column
  it returns a cart, the row's stored quantity becomes the given value, whatever it was
  before, and every other row stays as it is.
\<close>

theorem update_cart_item_quantity:
  fixes q :: int and fa :: "'f float_arith" and d :: "'f db"
  assumes ok: "db_ok d" and u: "u \<in> set (users d)" "u_username u = username cu"
    and c: "c \<in> set (cart_items d)" "c_user_id c = u_id u"
  defines "res \<equiv> update_cart_item fa d (c_id c) \<lparr>upd_quantity = q\<rparr> cu"
  shows "(q \<le> 0 \<longrightarrow>
            snd res = d\<lparr>cart_items := removeAll c (cart_items d)\<rparr> \<and>
            (\<exists>before after.
               get_cart fa d cu = Inr before \<and> fst res = Inr after \<and>
               resp_items after = filter (\<lambda>r. r_id r \<noteq> c_id c) (resp_items before) \<and>
               resp_total after =
                 foldl (\<lambda>tot r. f_add fa tot
                          (f_mul fa (g_price (r_gear_item r)) (f_of_int fa (r_quantity r))))
                   (f_zero fa) (resp_items after))) \<and>
         (0 < q \<and> q < 2 ^ 63 \<longrightarrow>
            snd res = d\<lparr>cart_items :=
                          map (\<lambda>x. if x = c then c\<lparr>c_quantity := q\<rparr> else x) (cart_items d)\<rparr> \<and>
            (\<exists>after. fst res = Inr after))"
proof -
  have du: "distinct (map u_username (users d))" and dg: "distinct (map g_id (gear_items d))"
    and dc: "distinct (map c_id (cart_items d))"
    using ok by (simp_all add: db_ok_def)
  let ?mine = "\<lambda>t. filter (\<lambda>x. c_user_id x = u_id u) t"
  have cart: "get_cart fa (d\<lparr>cart_items := t\<rparr>) cu =
      Inr \<lparr>resp_items = List.map_filter (cart_entry d) (?mine t),
           resp_total = foldl (add_line fa) (f_zero fa)
             (List.map_filter (cart_entry d) (?mine t))\<rparr>" for t
    using get_cart_users_gear [of "d\<lparr>cart_items := t\<rparr>" u cu fa] du dg u by simp
  have l: "add_line fa = (\<lambda>tot r. f_add fa tot
                      (f_mul fa (g_price (r_gear_item r)) (f_of_int fa (r_quantity r))))"
    by (intro ext) (simp add: add_line_def)
  note own = update_cart_item_own [OF ok u c, of fa q]
  show ?thesis
  proof (intro conjI impI)
    assume q: "q \<le> 0"
    then have r: "res = (get_cart fa (d\<lparr>cart_items := removeAll c (cart_items d)\<rparr>) cu,
                        d\<lparr>cart_items := removeAll c (cart_items d)\<rparr>)"
      using own by (simp add: res_def)
    show "snd res = d\<lparr>cart_items := removeAll c (cart_items d)\<rparr>"
      by (simp add: r)
    have b: "get_cart fa d cu =
        Inr \<lparr>resp_items = List.map_filter (cart_entry d) (?mine (cart_items d)),
             resp_total = foldl (add_line fa) (f_zero fa)
               (List.map_filter (cart_entry d) (?mine (cart_items d)))\<rparr>"
      using cart [of "cart_items d"] by simp
    have "removeAll c (cart_items d) = filter (\<lambda>x. c_id x \<noteq> c_id c) (cart_items d)"
      using delete_cart_item_removeAll [OF dc c(1)] by (simp add: delete_cart_item_def)
    then have sw: "?mine (removeAll c (cart_items d)) =
              filter (\<lambda>x. c_id x \<noteq> c_id c) (?mine (cart_items d))"
      by (auto intro: filter_cong)
    show "\<exists>before after.
               get_cart fa d cu = Inr before \<and> fst res = Inr after \<and>
               resp_items after = filter (\<lambda>r. r_id r \<noteq> c_id c) (resp_items before) \<and>
               resp_total after =
                 foldl (\<lambda>tot r. f_add fa tot
                          (f_mul fa (g_price (r_gear_item r)) (f_of_int fa (r_quantity r))))
                   (f_zero fa) (resp_items after)"
      unfolding b r fst_conv cart sw map_filter_cart_entry_filter_id l by simp
  next
    assume q: "0 < q \<and> q < 2 ^ 63"
    then have "sqlite_integer q" by (simp add: sqlite_integer_def)
    with q have r: "res =
        (get_cart fa
           (d\<lparr>cart_items :=
                map (\<lambda>x. if x = c then c\<lparr>c_quantity := q\<rparr> else x) (cart_items d)\<rparr>) cu,
         d\<lparr>cart_items :=
              map (\<lambda>x. if x = c then c\<lparr>c_quantity := q\<rparr> else x) (cart_items d)\<rparr>)"
      using own by (simp add: res_def)
    show "snd res = d\<lparr>cart_items :=
                          map (\<lambda>x. if x = c then c\<lparr>c_quantity := q\<rparr> else x) (cart_items d)\<rparr>"
      by (simp add: r)
    show "\<exists>after. fst res = Inr after"
      unfolding r fst_conv cart by simp
  qed
qed

theorem update_cart_item_quantity_witness:
  "update_cart_item demo_arith demo_db 1 \<lparr>upd_quantity = 0\<rparr> user1 =
     (Inr \<lparr>resp_items = [], resp_total = 0\<rparr>,
      demo_db\<lparr>cart_items := [\<lparr>c_id = 2, c_user_id = 2, c_gear_item_id = 9, c_quantity = 1\<rparr>,
                               \<lparr>c_id = 3, c_user_id = 3, c_gear_item_id = 3, c_quantity = 1\<rparr>]\<rparr>) \<and>
   snd (update_cart_item demo_arith demo_db 1 \<lparr>upd_quantity = 7\<rparr> user1) =
     demo_db\<lparr>cart_items := [\<lparr>c_id = 1, c_user_id = 2, c_gear_item_id = 1, c_quantity = 7\<rparr>,
                              \<lparr>c_id = 2, c_user_id = 2, c_gear_item_id = 9, c_quantity = 1\<rparr>,
                              \<lparr>c_id = 3, c_user_id = 3, c_gear_item_id = 3, c_quantity = 1\<rparr>]\<rparr>"
proof -
  let ?u = "\<lparr>u_id = 2, u_username = ''user1'', u_hashed_password = ''h:password1'', u_is_admin = False\<rparr>"
  let ?c = "\<lparr>c_id = 1, c_user_id = 2, c_gear_item_id = 1, c_quantity = 2\<rparr>"
  have u: "?u \<in> set (users demo_db)" "u_username ?u = username user1"
    by (simp_all add: demo_db_def user1_def)
  have c: "?c \<in> set (cart_items demo_db)" "c_user_id ?c = u_id ?u"
    by (simp_all add: demo_db_def)
  have b: "get_cart demo_arith demo_db user1 =
     Inr \<lparr>resp_items = [\<lparr>r_id = 1, r_gear_item_id = 1, r_quantity = 2, r_gear_item = shure\<rparr>],
          resp_total = 858\<rparr>"
    by code_simp
  have t: "cart_items demo_db = [?c, \<lparr>c_id = 2, c_user_id = 2, c_gear_item_id = 9, c_quantity = 1\<rparr>,
                               \<lparr>c_id = 3, c_user_id = 3, c_gear_item_id = 3, c_quantity = 1\<rparr>]"
    by (simp add: demo_db_def)
  have z: "update_cart_item demo_arith demo_db 1 \<lparr>upd_quantity = 0\<rparr> user1 =
     (Inr \<lparr>resp_items = [], resp_total = 0\<rparr>,
      demo_db\<lparr>cart_items := [\<lparr>c_id = 2, c_user_id = 2, c_gear_item_id = 9, c_quantity = 1\<rparr>,
                               \<lparr>c_id = 3, c_user_id = 3, c_gear_item_id = 3, c_quantity = 1\<rparr>]\<rparr>)"
    using update_cart_item_quantity [OF db_ok_demo u c, where fa = demo_arith and q = 0]
    unfolding b t by (auto simp: prod_eq_iff demo_arith_def)
  have s: "snd (update_cart_item demo_arith demo_db 1 \<lparr>upd_quantity = 7\<rparr> user1) =
     demo_db\<lparr>cart_items := [\<lparr>c_id = 1, c_user_id = 2, c_gear_item_id = 1, c_quantity = 7\<rparr>,
                              \<lparr>c_id = 2, c_user_id = 2, c_gear_item_id = 9, c_quantity = 1\<rparr>,
                              \<lparr>c_id = 3, c_user_id = 3, c_gear_item_id = 3, c_quantity = 1\<rparr>]\<rparr>"
    using update_cart_item_quantity [OF db_ok_demo u c, where fa = demo_arith and q = 7]
    unfolding t by simp
  from z s show ?thesis by simp
qed


section \<open>User deletion\<close>

lemma fold_delete_cart_item:
  "fold delete_cart_item loaded tbl = filter (\<lambda>c. c_id c \<notin> c_id ` set loaded) tbl"
proof (induction loaded arbitrary: tbl)
  case Nil
  show ?case by simp
next
  case (Cons x xs)
  have "fold delete_cart_item (x # xs) tbl =
        filter (\<lambda>c. c_id c \<notin> c_id ` set xs) (delete_cart_item x tbl)"
    by (simp add: Cons)
  also have "\<dots> = filter (\<lambda>c. c_id c \<notin> c_id ` set (x # xs)) tbl"
    unfolding delete_cart_item_def filter_filter by (rule filter_cong) auto
  finally show ?case .
qed






section \<open>Authentication\<close>

lemma get_current_user_presented:
  fixes jwt_decode :: "string \<Rightarrow> string \<Rightarrow> string list \<Rightarrow> TokenPayload option"
    and oauth2_token :: "string option" and http_auth :: "HTTPAuthorizationCredentials option"
    and d :: "'f db"
  assumes ok: "db_ok d"
  defines "result \<equiv> get_current_user jwt_decode d oauth2_token http_auth"
  shows "(result = Inl credentials_exception \<longleftrightarrow>
            (case presented_token oauth2_token http_auth of
               None \<Rightarrow> True
             | Some token \<Rightarrow>
                 token = [] \<or>
                 (case jwt_decode token SECRET_KEY [ALGORITHM] of
                    None \<Rightarrow> True
                  | Some payload \<Rightarrow> sub payload \<notin> Some ` u_username ` set (users d)))) \<and>
         (\<forall>token payload u.
            presented_token oauth2_token http_auth = Some token \<and> token \<noteq> [] \<and>
            jwt_decode token SECRET_KEY [ALGORITHM] = Some payload \<and>
            u \<in> set (users d) \<and> sub payload = Some (u_username u) \<longrightarrow>
            result = Inr \<lparr>username = u_username u, is_admin = u_is_admin u, uid = None\<rparr>) \<and>
         (\<forall>e. result = Inl e \<longrightarrow> e = credentials_exception)"
proof -
  have du: "distinct (map u_username (users d))" and ne: "[] \<notin> u_username ` set (users d)"
    using ok by (simp_all add: db_ok_def)
  have fu: "find_user d n = Inr (find (\<lambda>u. u_username u = n) (users d))" for n
    by (rule find_user_unique [OF du])
  have known: "result = Inr \<lparr>username = u_username u, is_admin = u_is_admin u, uid = None\<rparr>"
    if "presented_token oauth2_token http_auth = Some token" "token \<noteq> []"
      "jwt_decode token SECRET_KEY [ALGORITHM] = Some payload"
      "u \<in> set (users d)" "sub payload = Some (u_username u)" for token payload u
  proof -
    have "u_username u \<noteq> []" using ne that(4) by (metis imageI)
    moreover have "find (\<lambda>y. u_username y = u_username u) (users d) = Some u"
      by (rule find_key_distinct [OF du that(4)])
    ultimately show ?thesis
      using that by (simp add: result_def get_current_user_def verify_token_def fu)
  qed
  have unknown: "result = Inl credentials_exception"
    if "presented_token oauth2_token http_auth = Some token"
      "jwt_decode token SECRET_KEY [ALGORITHM] = Some payload"
      "sub payload \<notin> Some ` u_username ` set (users d)" for token payload
  proof (cases "sub payload")
    case None
    then show ?thesis
      using that by (simp add: result_def get_current_user_def verify_token_def)
  next
    case (Some n)
    then have "find (\<lambda>u. u_username u = n) (users d) = None"
      using that(3) by (auto simp: find_None_iff image_iff)
    then show ?thesis
      using that Some by (simp add: result_def get_current_user_def verify_token_def fu)
  qed
  show ?thesis
  proof (cases "presented_token oauth2_token http_auth")
    case None
    then show ?thesis by (simp add: result_def get_current_user_def)
  next
    case tok: (Some token)
    show ?thesis
    proof (cases "token = []")
      case True
      then show ?thesis using tok by (simp add: result_def get_current_user_def)
    next
      case nonempty: False
      show ?thesis
      proof (cases "jwt_decode token SECRET_KEY [ALGORITHM]")
        case None
        then show ?thesis
          using tok nonempty by (simp add: result_def get_current_user_def verify_token_def)
      next
        case pl: (Some payload)
        show ?thesis
        proof (cases "sub payload \<in> Some ` u_username ` set (users d)")
          case True
          then obtain u where u: "u \<in> set (users d)" "sub payload = Some (u_username u)"
            by auto
          have r: "result = Inr \<lparr>username = u_username u, is_admin = u_is_admin u, uid = None\<rparr>"
            by (rule known [OF tok nonempty pl u])
          have same: "u' = u" if "u' \<in> set (users d)" "sub payload = Some (u_username u')" for u'
            using that u du by (auto simp: distinct_map dest: inj_onD)
          show ?thesis
            using tok nonempty pl True r same by auto
        next
          case False
          have r: "result = Inl credentials_exception"
            by (rule unknown [OF tok pl False])
          show ?thesis
            using tok nonempty pl False r by auto
        qed
      qed
    qed
  qed
qed


text \<open>
  Claim C3. In a store with unique, non-empty usernames, \<open>get_current_user\<close> goes on
  with the OAuth2 token when there is one and it is not empty, and else with the
  credentials of the bearer header when there is one and they are not empty. With either
  it raises the 401 \<open>credentials_exception\<close> exactly when the token does not decode
  (\<open>JWTError\<close>: signature, expiry, format) or decodes to a subject that is not the
  username of a user row; and when it decodes to the username of a row, the result is
  that row's username and admin flag, read from the store at that moment. With neither it
  raises the same 401. It raises nothing else.
\<close>

theorem get_current_user_cases:
  fixes jwt_decode :: "string \<Rightarrow> string \<Rightarrow> string list \<Rightarrow> TokenPayload option"
    and oauth2_token :: "string option" and http_auth :: "HTTPAuthorizationCredentials option"
    and d :: "'f db"
  assumes ok: "db_ok d"
  defines "result \<equiv> get_current_user jwt_decode d oauth2_token http_auth"
  shows "(\<forall>t. (oauth2_token = Some t \<and> t \<noteq> [] \<or>
               (oauth2_token = None \<or> oauth2_token = Some []) \<and>
               (\<exists>h. http_auth = Some h \<and> credentials h = t \<and> t \<noteq> [])) \<longrightarrow>
              (result = Inl credentials_exception \<longleftrightarrow>
                 (case jwt_decode t SECRET_KEY [ALGORITHM] of
                    None \<Rightarrow> True
                  | Some payload \<Rightarrow> sub payload \<notin> Some ` u_username ` set (users d))) \<and>
              (\<forall>payload u.
                 jwt_decode t SECRET_KEY [ALGORITHM] = Some payload \<and>
                 u \<in> set (users d) \<and> sub payload = Some (u_username u) \<longrightarrow>
                 result = Inr \<lparr>username = u_username u, is_admin = u_is_admin u, uid = None\<rparr>)) \<and>
         ((oauth2_token = None \<or> oauth2_token = Some []) \<and>
          (http_auth = None \<or> (\<exists>h. http_auth = Some h \<and> credentials h = [])) \<longrightarrow>
            result = Inl credentials_exception) \<and>
         (\<forall>e. result = Inl e \<longrightarrow> e = credentials_exception)"
proof -
  note p = get_current_user_presented [OF ok, of jwt_decode oauth2_token http_auth,
      folded result_def]
  let ?known = "\<lambda>t. case jwt_decode t SECRET_KEY [ALGORITHM] of
                    None \<Rightarrow> True
                  | Some payload \<Rightarrow> sub payload \<notin> Some ` u_username ` set (users d)"
  have p1: "result = Inl credentials_exception \<longleftrightarrow>
            (case presented_token oauth2_token http_auth of
               None \<Rightarrow> True
             | Some token \<Rightarrow> token = [] \<or> ?known token)"
    using p by (rule conjunct1)
  have p2: "result = Inr \<lparr>username = u_username u, is_admin = u_is_admin u, uid = None\<rparr>"
    if "presented_token oauth2_token http_auth = Some token" "token \<noteq> []"
      "jwt_decode token SECRET_KEY [ALGORITHM] = Some payload"
      "u \<in> set (users d)" "sub payload = Some (u_username u)" for token payload u
    using p [THEN conjunct2, THEN conjunct1] that by blast
  have p3: "\<forall>e. result = Inl e \<longrightarrow> e = credentials_exception"
    using p [THEN conjunct2, THEN conjunct2] .
  have a: "(result = Inl credentials_exception \<longleftrightarrow> ?known t) \<and>
              (\<forall>payload u.
                 jwt_decode t SECRET_KEY [ALGORITHM] = Some payload \<and>
                 u \<in> set (users d) \<and> sub payload = Some (u_username u) \<longrightarrow>
                 result = Inr \<lparr>username = u_username u, is_admin = u_is_admin u, uid = None\<rparr>)"
    if "oauth2_token = Some t \<and> t \<noteq> [] \<or>
               (oauth2_token = None \<or> oauth2_token = Some []) \<and>
               (\<exists>h. http_auth = Some h \<and> credentials h = t \<and> t \<noteq> [])" for t
  proof -
    from that have pt: "presented_token oauth2_token http_auth = Some t" and ne: "t \<noteq> []"
      by (auto simp: presented_token_def)
    have "result = Inl credentials_exception \<longleftrightarrow> ?known t"
      using p1 ne by (simp add: pt)
    moreover have "\<forall>payload u.
                 jwt_decode t SECRET_KEY [ALGORITHM] = Some payload \<and>
                 u \<in> set (users d) \<and> sub payload = Some (u_username u) \<longrightarrow>
                 result = Inr \<lparr>username = u_username u, is_admin = u_is_admin u, uid = None\<rparr>"
      using p2 [OF pt ne] by blast
    ultimately show ?thesis by (rule conjI)
  qed
  have b: "result = Inl credentials_exception"
    if "(oauth2_token = None \<or> oauth2_token = Some []) \<and>
          (http_auth = None \<or> (\<exists>h. http_auth = Some h \<and> credentials h = []))"
  proof -
    from that have "presented_token oauth2_token http_auth = None \<or>
        presented_token oauth2_token http_auth = Some []"
      by (auto simp: presented_token_def)
    then show ?thesis
    proof
      assume "presented_token oauth2_token http_auth = None"
      then show ?thesis using p1 by simp
    next
      assume "presented_token oauth2_token http_auth = Some []"
      then show ?thesis using p1 by simp
    qed
  qed
  have A: "\<forall>t. (oauth2_token = Some t \<and> t \<noteq> [] \<or>
               (oauth2_token = None \<or> oauth2_token = Some []) \<and>
               (\<exists>h. http_auth = Some h \<and> credentials h = t \<and> t \<noteq> [])) \<longrightarrow>
              (result = Inl credentials_exception \<longleftrightarrow> ?known t) \<and>
              (\<forall>payload u.
                 jwt_decode t SECRET_KEY [ALGORITHM] = Some payload \<and>
                 u \<in> set (users d) \<and> sub payload = Some (u_username u) \<longrightarrow>
                 result = Inr \<lparr>username = u_username u, is_admin = u_is_admin u, uid = None\<rparr>)"
  proof (intro allI impI)
    fix t
    assume "oauth2_token = Some t \<and> t \<noteq> [] \<or>
               (oauth2_token = None \<or> oauth2_token = Some []) \<and>
               (\<exists>h. http_auth = Some h \<and> credentials h = t \<and> t \<noteq> [])"
    then show "(result = Inl credentials_exception \<longleftrightarrow> ?known t) \<and>
              (\<forall>payload u.
                 jwt_decode t SECRET_KEY [ALGORITHM] = Some payload \<and>
                 u \<in> set (users d) \<and> sub payload = Some (u_username u) \<longrightarrow>
                 result = Inr \<lparr>username = u_username u, is_admin = u_is_admin u, uid = None\<rparr>)"
      by (rule a)
  qed
  have B: "(oauth2_token = None \<or> oauth2_token = Some []) \<and>
          (http_auth = None \<or> (\<exists>h. http_auth = Some h \<and> credentials h = [])) \<longrightarrow>
            result = Inl credentials_exception"
    using b by (rule impI)
  show ?thesis
    by (rule conjI [OF A conjI [OF B p3]])
qed

theorem get_current_user_cases_witness:
  "get_current_user demo_decode demo_db (Some ''tok:user1'') None = Inr user1 \<and>
   get_current_user demo_decode demo_db None
     (Some \<lparr>scheme = ''Bearer'', credentials = ''tok:user1''\<rparr>) = Inr user1 \<and>
   get_current_user demo_decode demo_db (Some ''garbage'')
     (Some \<lparr>scheme = ''Bearer'', credentials = ''tok:user1''\<rparr>) = Inl credentials_exception \<and>
   get_current_user demo_decode demo_db (Some ''tok:ghost'') None = Inl credentials_exception \<and>
   get_current_user demo_decode demo_db None None = Inl credentials_exception"
proof -
  note t = get_current_user_cases [OF db_ok_demo, of _ _ demo_decode]
  let ?u = "\<lparr>u_id = 2, u_username = ''user1'', u_hashed_password = ''h:password1'', u_is_admin = False\<rparr>"
  let ?h = "\<lparr>scheme = ''Bearer'', credentials = ''tok:user1''\<rparr>"
  let ?p = "\<lparr>sub = Some ''user1'', exp = Some 0\<rparr>"
  have us: "u_username ` set (users demo_db) = {''admin'', ''user1'', ''testadmin''}"
    by (auto simp: demo_db_def)
  have dec: "demo_decode ''tok:user1'' SECRET_KEY [ALGORITHM] = Some ?p"
    by (simp add: demo_decode_def)
  have u: "?u \<in> set (users demo_db)" "sub ?p = Some (u_username ?u)"
    by (simp_all add: demo_db_def)
  have a: "get_current_user demo_decode demo_db (Some ''tok:user1'') None =
      Inr \<lparr>username = u_username ?u, is_admin = u_is_admin ?u, uid = None\<rparr>"
  proof -
    have "Some ''tok:user1'' = Some ''tok:user1'' \<and> ''tok:user1'' \<noteq> [] \<or>
        (Some ''tok:user1'' = None \<or> Some ''tok:user1'' = Some []) \<and>
        (\<exists>h. (None :: HTTPAuthorizationCredentials option) = Some h \<and>
           credentials h = ''tok:user1'' \<and> ''tok:user1'' \<noteq> [])"
      by simp
    from t [of "Some ''tok:user1''" None, THEN conjunct1, rule_format, OF this,
        THEN conjunct2, rule_format, of ?p ?u] dec u
    show ?thesis by blast
  qed
  have b: "get_current_user demo_decode demo_db None (Some ?h) =
      Inr \<lparr>username = u_username ?u, is_admin = u_is_admin ?u, uid = None\<rparr>"
  proof -
    have "(None :: string option) = Some ''tok:user1'' \<and> ''tok:user1'' \<noteq> [] \<or>
        ((None :: string option) = None \<or> (None :: string option) = Some []) \<and>
        (\<exists>h. Some ?h = Some h \<and> credentials h = ''tok:user1'' \<and> ''tok:user1'' \<noteq> [])"
      by simp
    from t [of None "Some ?h", THEN conjunct1, rule_format, OF this,
        THEN conjunct2, rule_format, of ?p ?u] dec u
    show ?thesis by blast
  qed
  have c: "get_current_user demo_decode demo_db (Some ''garbage'') (Some ?h) = Inl credentials_exception"
  proof -
    have "Some ''garbage'' = Some ''garbage'' \<and> ''garbage'' \<noteq> [] \<or>
        (Some ''garbage'' = None \<or> Some ''garbage'' = Some []) \<and>
        (\<exists>h. Some ?h = Some h \<and> credentials h = ''garbage'' \<and> ''garbage'' \<noteq> [])"
      by simp
    from t [of "Some ''garbage''" "Some ?h", THEN conjunct1, rule_format, OF this,
        THEN conjunct1]
    show ?thesis by (simp add: demo_decode_def)
  qed
  have e: "get_current_user demo_decode demo_db (Some ''tok:ghost'') None = Inl credentials_exception"
  proof -
    have "Some ''tok:ghost'' = Some ''tok:ghost'' \<and> ''tok:ghost'' \<noteq> [] \<or>
        (Some ''tok:ghost'' = None \<or> Some ''tok:ghost'' = Some []) \<and>
        (\<exists>h. (None :: HTTPAuthorizationCredentials option) = Some h \<and>
           credentials h = ''tok:ghost'' \<and> ''tok:ghost'' \<noteq> [])"
      by simp
    from t [of "Some ''tok:ghost''" None, THEN conjunct1, rule_format, OF this,
        THEN conjunct1]
    show ?thesis by (simp add: demo_decode_def us)
  qed
  have f: "get_current_user demo_decode demo_db None None = Inl credentials_exception"
    using t [of None None, THEN conjunct2, THEN conjunct1] by simp
  from a b c e f show ?thesis by (simp add: user1_def)
qed

lemma dropWhile_id: "xs = [] \<or> \<not> P (hd xs) \<Longrightarrow> dropWhile P xs = xs"
  by (cases xs) auto

lemma strip_ends:
  "strip s = [] \<or> (\<not> isspace (hd (strip s)) \<and> \<not> isspace (last (strip s)))"
proof (cases "strip s = []")
  case True
  then show ?thesis by simp
next
  case False
  let ?t = "dropWhile isspace s"
  let ?r = "dropWhile isspace (rev ?t)"
  have r: "strip s = rev ?r" by (simp add: strip_def)
  with False have rne: "?r \<noteq> []" by simp
  then have "\<not> isspace (hd ?r)" by (rule hd_dropWhile)
  then have l: "\<not> isspace (last (strip s))" using rne by (simp add: r last_rev)
  have "rev ?t = takeWhile isspace (rev ?t) @ ?r" by simp
  then have "?t = rev ?r @ rev (takeWhile isspace (rev ?t))"
    by (metis rev_append rev_rev_ident)
  then have t: "?t = strip s @ rev (takeWhile isspace (rev ?t))" by (simp add: r)
  with False have "hd ?t = hd (strip s)" by (metis hd_append2)
  moreover have "?t \<noteq> []" using t False by (metis append_is_Nil_conv)
  then have "\<not> isspace (hd ?t)" by (rule hd_dropWhile)
  ultimately show ?thesis using l by simp
qed

lemma strip_strip: "strip (strip s) = strip s"
proof (cases "strip s = []")
  case True
  have "strip [] = []" by (simp add: strip_def)
  with True show ?thesis by simp
next
  case False
  with strip_ends [of s] have h: "\<not> isspace (hd (strip s))" and l: "\<not> isspace (last (strip s))"
    by simp_all
  have a: "dropWhile isspace (strip s) = strip s"
    by (rule dropWhile_id) (use h in simp)
  have "hd (rev (strip s)) = last (strip s)" using False by (simp add: hd_rev)
  then have b: "dropWhile isspace (rev (strip s)) = rev (strip s)"
    using l by (intro dropWhile_id) simp
  show ?thesis
    unfolding strip_def [of "strip s"] a b by simp
qed

lemma register_user_strip:
  "register_user pwd_hash d \<lparr>reg_username = strip uname, reg_password = p\<rparr> =
   register_user pwd_hash d \<lparr>reg_username = uname, reg_password = p\<rparr>"
  by (simp add: register_user_def strip_strip)

lemma scalar_one_or_none_None: "scalar_one_or_none xs = Inr None \<longleftrightarrow> xs = []"
  by (cases xs rule: scalar_one_or_none.cases) simp_all

lemma register_user_accepted:
  assumes "register_user pwd_hash d \<lparr>reg_username = uname, reg_password = p\<rparr> = (Inr msg, d')"
  shows "3 \<le> length (strip uname)" and "length (strip uname) \<le> 32"
    and "\<not> list_ex isspace (strip uname)"
    and "6 \<le> length p" and "length p \<le> 128"
    and "\<forall>u \<in> set (users d). sql_lower (u_username u) \<noteq> py_lower (strip uname)"
    and "strip uname \<notin> u_username ` set (users d)"
    and "d' = d\<lparr>users := users d @
                 [\<lparr>u_id = next_id (map u_id (users d)), u_username = strip uname,
                   u_hashed_password = pwd_hash p, u_is_admin = False\<rparr>]\<rparr>"
    and "msg = ''registered''"
proof -
  let ?f = "filter (\<lambda>u. sql_lower (u_username u) = py_lower (strip uname)) (users d)"
  from assms have v: "3 \<le> length (strip uname) \<and> length (strip uname) \<le> 32 \<and>
      \<not> list_ex isspace (strip uname) \<and> 6 \<le> length p \<and> length p \<le> 128"
    by (auto simp: register_user_def Let_def split: if_splits)
  with assms have c: "(case scalar_one_or_none ?f of
           Inl e \<Rightarrow> (Inl e, d)
         | Inr (Some existing) \<Rightarrow> (Inl (HTTPException 409 ''Username already taken''), d)
         | Inr None \<Rightarrow>
             (case insert_user d (strip uname) (pwd_hash p) False of
                Inl e \<Rightarrow> (Inl e, d)
              | Inr d' \<Rightarrow> (Inr ''registered'', d'))) = (Inr msg, d')"
    by (simp add: register_user_def Let_def not_less)
  then have s: "scalar_one_or_none ?f = Inr None"
    by (auto split: sum.splits option.splits)
  then have e: "?f = []" by (simp add: scalar_one_or_none_None)
  from c s have i: "insert_user d (strip uname) (pwd_hash p) False = Inr d'" and m: "msg = ''registered''"
    by (auto split: sum.splits)
  from v show "3 \<le> length (strip uname)" "length (strip uname) \<le> 32"
    "\<not> list_ex isspace (strip uname)" "6 \<le> length p" "length p \<le> 128" by simp_all
  from e show "\<forall>u \<in> set (users d). sql_lower (u_username u) \<noteq> py_lower (strip uname)"
    by (simp add: filter_empty_conv)
  from i show "strip uname \<notin> u_username ` set (users d)"
    by (auto simp: insert_user_def split: if_splits)
  from i show "d' = d\<lparr>users := users d @
                 [\<lparr>u_id = next_id (map u_id (users d)), u_username = strip uname,
                   u_hashed_password = pwd_hash p, u_is_admin = False\<rparr>]\<rparr>"
    by (auto simp: insert_user_def split: if_splits)
  from m show "msg = ''registered''" .
qed

lemma register_user_accepts:
  assumes "3 \<le> length (strip uname)" and "length (strip uname) \<le> 32"
    and "\<not> list_ex isspace (strip uname)"
    and "6 \<le> length p" and "length p \<le> 128"
    and "\<forall>u \<in> set (users d). sql_lower (u_username u) \<noteq> py_lower (strip uname)"
    and "strip uname \<notin> u_username ` set (users d)"
  shows "register_user pwd_hash d \<lparr>reg_username = uname, reg_password = p\<rparr> =
           (Inr ''registered'',
            d\<lparr>users := users d @
                 [\<lparr>u_id = next_id (map u_id (users d)), u_username = strip uname,
                   u_hashed_password = pwd_hash p, u_is_admin = False\<rparr>]\<rparr>)"
proof -
  have "filter (\<lambda>u. sql_lower (u_username u) = py_lower (strip uname)) (users d) = []"
    using assms(6) by (simp add: filter_empty_conv)
  then show ?thesis
    using assms(1-5,7) by (simp add: register_user_def Let_def insert_user_def)
qed

lemma find_append:
  "find P (xs @ ys) = (case find P xs of None \<Rightarrow> find P ys | Some x \<Rightarrow> Some x)"
  by (induction xs) simp_all

lemma find_user_appended:
  assumes "distinct (map u_username (users d))" and "n \<notin> u_username ` set (users d)"
    and "u_username new = n"
  shows "find_user (d\<lparr>users := users d @ [new]\<rparr>) x = Inr (Some new) \<longleftrightarrow> x = n"
proof -
  have dd: "distinct (map u_username (users (d\<lparr>users := users d @ [new]\<rparr>)))"
    using assms by simp
  have "find (\<lambda>u. u_username u = x) (users d @ [new]) = Some new \<longleftrightarrow> x = n"
  proof (cases "find (\<lambda>u. u_username u = x) (users d)")
    case None
    then show ?thesis using assms(3) by (auto simp: find_append)
  next
    case (Some y)
    then have y: "y \<in> set (users d)" "u_username y = x" by (auto simp: find_Some_iff)
    then have "x \<in> u_username ` set (users d)" by (metis imageI)
    with assms(2) have "x \<noteq> n" by metis
    moreover from this y(2) assms(3) have "y \<noteq> new" by metis
    ultimately show ?thesis using Some by (simp add: find_append)
  qed
  then show ?thesis by (simp add: find_user_unique [OF dd])
qed


lemma strip_padded:
  assumes "\<forall>c \<in> set (pre @ post). isspace c"
  shows "strip (pre @ s @ post) = strip s"
proof -
  have pre: "\<And>c. c \<in> set pre \<Longrightarrow> isspace c" and post: "\<And>c. c \<in> set (rev post) \<Longrightarrow> isspace c"
    using assms by simp_all
  have a: "dropWhile isspace (pre @ s @ post) = dropWhile isspace (s @ post)"
    using pre by (rule dropWhile_append2)
  show ?thesis
  proof (cases "\<forall>c \<in> set s. isspace c")
    case True
    then have "\<forall>c \<in> set (s @ post). isspace c" using assms by auto
    then have e1: "dropWhile isspace (s @ post) = []" by (rule dropWhile_eq_Nil_conv [THEN iffD2])
    have e2: "dropWhile isspace s = []" using True by (rule dropWhile_eq_Nil_conv [THEN iffD2])
    show ?thesis unfolding strip_def a e1 e2 by simp
  next
    case False
    then obtain x where x: "x \<in> set s" "\<not> isspace x" by blast
    then have b: "dropWhile isspace (s @ post) = dropWhile isspace s @ post"
      by (rule dropWhile_append1)
    have c: "dropWhile isspace (rev post @ rev (dropWhile isspace s)) =
        dropWhile isspace (rev (dropWhile isspace s))"
      using post by (rule dropWhile_append2)
    show ?thesis unfolding strip_def a b rev_append c by simp
  qed
qed

lemma strip_no_space:
  assumes "\<forall>c \<in> set s. \<not> isspace c"
  shows "strip s = s"
proof -
  have a: "dropWhile isspace s = s"
    using assms by (intro dropWhile_id) (cases s, simp_all)
  have b: "dropWhile isspace (rev s) = rev s"
    using assms by (intro dropWhile_id) (cases "rev s", simp, metis list.sel(1) list.set_intros(1) set_rev)
  show ?thesis by (simp add: strip_def a b)
qed

text \<open>
  Claim C10. Let the username sent be a core framed by any characters that Python's
  \<open>str.isspace\<close> accepts (tab, line feed, vertical tab, form feed, carriage return, the
  separators U+001C to U+001F, the space, U+0085 and U+00A0), on either side, the core
  holding none of them. When the core has 3 to 32 characters, the password has 6 to 128
  characters, and no row has the core as its username (compared lower-cased or exactly),
  \<open>register_user\<close> accepts the request and appends a row that carries the core as its
  username: the outcome is that of the request sent with the core alone. The lookup by
  exact username that login does finds the new row under the core and under no other
  name, so not under the username as it was sent when it was framed.
\<close>

theorem register_user_strips_username:
  fixes pwd_hash :: "string \<Rightarrow> string" and d :: "'f db" and pre core post p :: string
  assumes ok: "db_ok d"
    and pad: "\<forall>c \<in> set (pre @ post).
                (of_char c :: nat) \<in> {9, 10, 11, 12, 13, 28, 29, 30, 31, 32, 133, 160}"
    and nospace: "\<forall>c \<in> set core.
                (of_char c :: nat) \<notin> {9, 10, 11, 12, 13, 28, 29, 30, 31, 32, 133, 160}"
    and len: "3 \<le> length core" "length core \<le> 32"
    and pw: "6 \<le> length p" "length p \<le> 128"
    and nodup: "\<forall>u \<in> set (users d). sql_lower (u_username u) \<noteq> py_lower core"
    and fresh: "core \<notin> u_username ` set (users d)"
  defines "new \<equiv> \<lparr>u_id = next_id (map u_id (users d)), u_username = core,
                   u_hashed_password = pwd_hash p, u_is_admin = False\<rparr>"
  shows "register_user pwd_hash d \<lparr>reg_username = pre @ core @ post, reg_password = p\<rparr> =
           (Inr ''registered'', d\<lparr>users := users d @ [new]\<rparr>) \<and>
         register_user pwd_hash d \<lparr>reg_username = core, reg_password = p\<rparr> =
           register_user pwd_hash d \<lparr>reg_username = pre @ core @ post, reg_password = p\<rparr> \<and>
         (\<forall>x. find_user (d\<lparr>users := users d @ [new]\<rparr>) x = Inr (Some new) \<longleftrightarrow> x = core) \<and>
         (pre @ post \<noteq> [] \<longrightarrow>
            find_user (d\<lparr>users := users d @ [new]\<rparr>) (pre @ core @ post) \<noteq> Inr (Some new))"
proof -
  have du: "distinct (map u_username (users d))"
    using ok by (simp add: db_ok_def)
  have "\<forall>c \<in> set (pre @ post). isspace c"
    using pad unfolding isspace_def .
  then have "strip (pre @ core @ post) = strip core"
    by (rule strip_padded)
  moreover have "\<forall>c \<in> set core. \<not> isspace c"
    using nospace unfolding isspace_def .
  then have sc: "strip core = core" and ns: "\<not> list_ex isspace core"
    by (simp_all add: strip_no_space list_ex_iff)
  ultimately have s: "strip (pre @ core @ post) = core" by simp
  have reg: "register_user pwd_hash d \<lparr>reg_username = uname, reg_password = p\<rparr> =
      (Inr ''registered'', d\<lparr>users := users d @ [new]\<rparr>)" if "strip uname = core" for uname
    unfolding new_def
    using register_user_accepts [of uname p d pwd_hash] len pw nodup fresh ns
    by (simp add: that)
  have f: "find_user (d\<lparr>users := users d @ [new]\<rparr>) x = Inr (Some new) \<longleftrightarrow> x = core" for x
    by (rule find_user_appended [OF du fresh]) (simp add: new_def)
  have "pre @ core @ post \<noteq> core" if "pre @ post \<noteq> []"
  proof
    assume "pre @ core @ post = core"
    then have "length (pre @ core @ post) = length core" by simp
    with that show False by simp
  qed
  then have g: "pre @ post \<noteq> [] \<longrightarrow>
      find_user (d\<lparr>users := users d @ [new]\<rparr>) (pre @ core @ post) \<noteq> Inr (Some new)"
    by (simp add: f)
  have r1: "register_user pwd_hash d \<lparr>reg_username = pre @ core @ post, reg_password = p\<rparr> =
           (Inr ''registered'', d\<lparr>users := users d @ [new]\<rparr>)"
    by (rule reg [OF s])
  have r2: "register_user pwd_hash d \<lparr>reg_username = core, reg_password = p\<rparr> =
           (Inr ''registered'', d\<lparr>users := users d @ [new]\<rparr>)"
    by (rule reg [OF sc])
  have F: "\<forall>x. find_user (d\<lparr>users := users d @ [new]\<rparr>) x = Inr (Some new) \<longleftrightarrow> x = core"
    using f by blast
  show ?thesis
    using r1 r2 F g by simp
qed

theorem register_user_strips_username_witness:
  "register_user demo_hash demo_db
     \<lparr>reg_username = [CHR 0x09, CHR 0xA0, CHR 0x20] @ ''bob'' @ [CHR 0x85, CHR 0x0A, CHR 0x0D],
      reg_password = ''secret1''\<rparr> =
     (Inr ''registered'',
      demo_db\<lparr>users := users demo_db @
        [\<lparr>u_id = 4, u_username = ''bob'', u_hashed_password = ''h:secret1'', u_is_admin = False\<rparr>]\<rparr>) \<and>
   register_user demo_hash demo_db \<lparr>reg_username = ''bob'', reg_password = ''secret1''\<rparr> =
     register_user demo_hash demo_db
       \<lparr>reg_username = [CHR 0x09, CHR 0xA0, CHR 0x20] @ ''bob'' @ [CHR 0x85, CHR 0x0A, CHR 0x0D],
        reg_password = ''secret1''\<rparr>"
proof -
  have pad: "\<forall>c \<in> set ([CHR 0x09, CHR 0xA0, CHR 0x20] @ [CHR 0x85, CHR 0x0A, CHR 0x0D]).
      (of_char c :: nat) \<in> {9, 10, 11, 12, 13, 28, 29, 30, 31, 32, 133, 160}"
    by simp
  have core: "\<forall>c \<in> set ''bob''.
      (of_char c :: nat) \<notin> {9, 10, 11, 12, 13, 28, 29, 30, 31, 32, 133, 160}"
    by simp
  have h: "3 \<le> length ''bob''" "length ''bob'' \<le> 32"
    "6 \<le> length ''secret1''" "length ''secret1'' \<le> 128"
    by simp_all
  have n: "\<forall>u \<in> set (users demo_db). sql_lower (u_username u) \<noteq> py_lower ''bob''"
    by code_simp
  have f: "''bob'' \<notin> u_username ` set (users demo_db)"
    by (simp add: demo_db_def)
  have i: "next_id (map u_id (users demo_db)) = 4"
    by (simp add: demo_db_def next_id_def)
  note t = register_user_strips_username [OF db_ok_demo pad core h n f, of demo_hash]
  from t [THEN conjunct1] t [THEN conjunct2, THEN conjunct1]
  show ?thesis
    by (simp add: i demo_hash_def)
qed

text \<open>
  Claim C9, amended. Whenever \<open>register_user\<close> accepts a username and a password, the new
  row carries the trimmed username, and, the hashing context verifying the password
  against the hash it made of it, a login right after with the trimmed username and the
  same password succeeds: the token is the encoding, under \<open>SECRET_KEY\<close> and
  \<open>ALGORITHM\<close>, of a payload whose subject is that registered username and whose expiry
  is 60 minutes after the clock.
\<close>

theorem register_then_login:
  fixes pwd_hash :: "string \<Rightarrow> string" and pwd_verify :: "string \<Rightarrow> string \<Rightarrow> bool"
    and jwt_encode :: "TokenPayload \<Rightarrow> string \<Rightarrow> string \<Rightarrow> string" and utcnow :: int
  assumes ok: "db_ok d"
    and reg: "register_user pwd_hash d \<lparr>reg_username = uname, reg_password = password\<rparr> = (Inr msg, d')"
    and hash: "pwd_verify password (pwd_hash password)"
  shows "login_for_access_token pwd_verify jwt_encode utcnow d'
           \<lparr>form_username = strip uname, form_password = password\<rparr> =
         Inr \<lparr>access_token =
                jwt_encode \<lparr>sub = Some (strip uname), exp = Some (utcnow + 3600)\<rparr> SECRET_KEY ALGORITHM,
              token_type = ''bearer''\<rparr> \<and>
         users d' = users d @
           [\<lparr>u_id = next_id (map u_id (users d)), u_username = strip uname,
             u_hashed_password = pwd_hash password, u_is_admin = False\<rparr>]"
proof -
  let ?new = "\<lparr>u_id = next_id (map u_id (users d)), u_username = strip uname,
               u_hashed_password = pwd_hash password, u_is_admin = False\<rparr>"
  have du: "distinct (map u_username (users d))"
    using ok by (simp add: db_ok_def)
  have fresh: "strip uname \<notin> u_username ` set (users d)"
    and d': "d' = d\<lparr>users := users d @ [?new]\<rparr>"
    using register_user_accepted(7,8) [OF reg] by simp_all
  have "find_user d' (strip uname) = Inr (Some ?new)"
    unfolding d' using find_user_appended [OF du fresh, of ?new "strip uname"] by simp
  then have "authenticate_user pwd_verify d' (strip uname) password =
      Inr (Some \<lparr>username = strip uname, is_admin = False, hashed_password = pwd_hash password\<rparr>)"
    using hash by (simp add: authenticate_user_def verify_password_def)
  then show ?thesis
    by (simp add: login_for_access_token_def create_access_token_def
        ACCESS_TOKEN_EXPIRE_MINUTES_def d')
qed

theorem register_then_login_witness:
  "login_for_access_token demo_verify demo_encode 0
     (demo_db\<lparr>users := users demo_db @
        [\<lparr>u_id = 4, u_username = ''bob'', u_hashed_password = ''h:secret1'', u_is_admin = False\<rparr>]\<rparr>)
     \<lparr>form_username = ''bob'', form_password = ''secret1''\<rparr> =
   Inr \<lparr>access_token = ''tok:bob'', token_type = ''bearer''\<rparr>"
proof -
  have s: "strip '' bob '' = ''bob''" by code_simp
  have r: "register_user demo_hash demo_db \<lparr>reg_username = '' bob '', reg_password = ''secret1''\<rparr> =
     (Inr ''registered'',
      demo_db\<lparr>users := users demo_db @
        [\<lparr>u_id = 4, u_username = ''bob'', u_hashed_password = ''h:secret1'', u_is_admin = False\<rparr>]\<rparr>)"
    by code_simp
  have v: "demo_verify ''secret1'' (demo_hash ''secret1'')"
    by (simp add: demo_verify_def demo_hash_def)
  show ?thesis
    using register_then_login [where pwd_verify = demo_verify and pwd_hash = demo_hash
        and jwt_encode = demo_encode and utcnow = 0, OF db_ok_demo r v]
    by (simp add: s demo_encode_def demo_hash_def)
qed

text \<open>
  Claim C9 says that a login with the same credentials succeeds. A username sent with
  surrounding whitespace is accepted under its trimmed form, and login, which looks the
  username up as it is sent, then fails with 401 for the username as it was registered.
\<close>

theorem login_padded_username_counterexample:
  "fst (register_user demo_hash demo_db \<lparr>reg_username = '' bob '', reg_password = ''secret1''\<rparr>) =
     Inr ''registered'' \<and>
   login_for_access_token demo_verify demo_encode 0
     (snd (register_user demo_hash demo_db \<lparr>reg_username = '' bob '', reg_password = ''secret1''\<rparr>))
     \<lparr>form_username = '' bob '', form_password = ''secret1''\<rparr> =
     Inl (HTTPException 401 ''Incorrect username or password'')"
  by code_simp

section \<open>The handlers keep the store invariants\<close>

text \<open>
  Every handler that writes leaves a store that satisfies \<^const>\<open>db_ok\<close> when it found
  one, whether it returns or raises; so the stores reached from the seeded one satisfy
  it, the seed usernames being distinct literals.
\<close>

lemma register_user_preserves_db_ok:
  assumes "db_ok d"
  shows "db_ok (snd (register_user pwd_hash d payload))"
proof (cases "fst (register_user pwd_hash d payload)")
  case (Inl e)
  then have "snd (register_user pwd_hash d payload) = d"
    by (auto simp: register_user_def Let_def insert_user_def
        split: if_splits sum.splits option.splits)
  with assms show ?thesis by simp
next
  case (Inr msg)
  obtain n p where p: "payload = \<lparr>reg_username = n, reg_password = p\<rparr>"
    by (cases payload) simp
  from Inr have r: "register_user pwd_hash d \<lparr>reg_username = n, reg_password = p\<rparr> =
      (Inr msg, snd (register_user pwd_hash d payload))"
    by (simp add: prod_eq_iff p)
  note a = register_user_accepted [OF r]
  have "strip n \<noteq> []" using a(1) by auto
  moreover have "next_id (map u_id (users d)) \<notin> u_id ` set (users d)"
    using next_id_fresh [of "map u_id (users d)"] by simp
  ultimately show ?thesis
    using assms a(7) unfolding a(8) by (simp add: db_ok_def)
qed

lemma map_c_id_set_quantity:
  "set_quantity row v tbl = Inr tbl' \<Longrightarrow> map c_id tbl' = map c_id tbl"
  by (auto simp: set_quantity_def comp_def if_distrib split: if_splits cong: if_cong)

lemma map_c_id_insert_cart_item:
  "insert_cart_item u g v tbl = Inr tbl' \<Longrightarrow> map c_id tbl' = map c_id tbl @ [next_id (map c_id tbl)]"
  by (auto simp: insert_cart_item_def split: if_splits)

lemma db_ok_cart_items:
  "db_ok d \<Longrightarrow> distinct (map c_id tbl) \<Longrightarrow> db_ok (d\<lparr>cart_items := tbl\<rparr>)"
  by (simp add: db_ok_def)

lemma add_to_cart_preserves_db_ok:
  assumes "db_ok d"
  shows "db_ok (snd (add_to_cart fa d payload cu))"
proof -
  have f: "next_id (map c_id (cart_items d)) \<notin> c_id ` set (cart_items d)"
    using next_id_fresh [of "map c_id (cart_items d)"] by simp
  have dc: "distinct (map c_id (cart_items d))" using assms by (simp add: db_ok_def)
  have a: "distinct (map c_id tbl)" if "set_quantity row v (cart_items d) = Inr tbl" for row v tbl
    using map_c_id_set_quantity [OF that] dc by simp
  have b: "distinct (map c_id tbl)" if "insert_cart_item u g v (cart_items d) = Inr tbl" for u g v tbl
    using map_c_id_insert_cart_item [OF that] dc f by simp
  show ?thesis
    using assms a b
    by (auto simp: add_to_cart_def Let_def db_ok_cart_items
        split: sum.splits option.splits)
qed

lemma update_cart_item_preserves_db_ok:
  assumes "db_ok d"
  shows "db_ok (snd (update_cart_item fa d i payload cu))"
proof -
  have dc: "distinct (map c_id (cart_items d))" using assms by (simp add: db_ok_def)
  have a: "distinct (map c_id tbl)" if "set_quantity row v (cart_items d) = Inr tbl" for row v tbl
    using map_c_id_set_quantity [OF that] dc by simp
  have b: "distinct (map c_id (delete_cart_item row (cart_items d)))" for row
    using dc by (simp add: delete_cart_item_def distinct_map_filter)
  show ?thesis
    using assms a b
    by (auto simp: update_cart_item_def Let_def db_ok_cart_items
        split: sum.splits option.splits if_splits)
qed

lemma remove_from_cart_preserves_db_ok:
  assumes "db_ok d"
  shows "db_ok (snd (remove_from_cart fa d i cu))"
  using assms
  by (auto simp: remove_from_cart_def Let_def db_ok_def delete_cart_item_def
      distinct_map_filter split: sum.splits option.splits)

lemma admin_delete_user_preserves_db_ok:
  assumes "db_ok d"
  shows "db_ok (snd (admin_delete_user d i cu))"
  using assms
  by (auto simp: admin_delete_user_def Let_def db_ok_def fold_delete_cart_item
      distinct_map_filter split: sum.splits option.splits)

end
